theory Spec2Isabelle
  imports Complex_Main
begin

section \<open>Values of the Go program\<close>

subsection \<open>float64\<close>

text \<open>
  The engine computes on \<^verbatim>\<open>float64\<close>, the binary64 format of IEEE 754.  Division by
  zero is not an error in Go: it yields an infinity or NaN, and the reinforcement step
  divides by a tour length that is zero.  The model therefore keeps the special values
  apart from the finite ones.  A finite value is the real number it stands for; the two
  zeros are one value, read as the positive zero.
\<close>

datatype float64 = Num real | PosInf | NegInf | NaN

text \<open>
  Every operation rounds its exact result to the nearest value of the format, a tie to
  the one with the even significand: 53 binary digits at an exponent from -1022 to 1023,
  so that the spacing of the values around x is 2 to the power \<^verbatim>\<open>exponent x - 52\<close>
  and is never below 2 to the power -1074.  A result that rounds to 2 to the power 1024
  or beyond is an infinity; one that rounds to nothing is zero.
\<close>

definition round_even :: "real \<Rightarrow> int" where
  "round_even x =
     (let f = \<lfloor>x\<rfloor>; d = x - of_int f
      in if d < 1 / 2 then f else if 1 / 2 < d then f + 1 else if even f then f else f + 1)"

definition exponent :: "real \<Rightarrow> int" where
  "exponent x = max (- 1022) \<lfloor>log 2 \<bar>x\<bar>\<rfloor>"

definition round64 :: "real \<Rightarrow> float64" where
  "round64 x =
     (if x = 0 then Num 0
      else let ulp = 2 powi (exponent x - 52);
               y = of_int (round_even (x / ulp)) * ulp
           in if 2 ^ 1024 \<le> \<bar>y\<bar> then (if 0 < x then PosInf else NegInf) else Num y)"

fun fadd :: "float64 \<Rightarrow> float64 \<Rightarrow> float64" where
  "fadd NaN y = NaN"
| "fadd x NaN = NaN"
| "fadd (Num a) (Num b) = round64 (a + b)"
| "fadd (Num a) y = y"
| "fadd x (Num b) = x"
| "fadd PosInf PosInf = PosInf"
| "fadd NegInf NegInf = NegInf"
| "fadd PosInf NegInf = NaN"
| "fadd NegInf PosInf = NaN"

fun fneg :: "float64 \<Rightarrow> float64" where
  "fneg (Num a) = Num (- a)"
| "fneg PosInf = NegInf"
| "fneg NegInf = PosInf"
| "fneg NaN = NaN"

fun fmul :: "float64 \<Rightarrow> float64 \<Rightarrow> float64" where
  "fmul NaN y = NaN"
| "fmul x NaN = NaN"
| "fmul (Num a) (Num b) = round64 (a * b)"
| "fmul (Num a) y = (if a = 0 then NaN else if 0 < a then y else fneg y)"
| "fmul x (Num b) = (if b = 0 then NaN else if 0 < b then x else fneg x)"
| "fmul PosInf y = y"
| "fmul NegInf y = fneg y"

fun fdiv :: "float64 \<Rightarrow> float64 \<Rightarrow> float64" where
  "fdiv NaN y = NaN"
| "fdiv x NaN = NaN"
| "fdiv (Num a) (Num b) =
     (if b = 0 then (if a = 0 then NaN else if 0 < a then PosInf else NegInf)
      else round64 (a / b))"
| "fdiv (Num a) y = Num 0"
| "fdiv x (Num b) = (if 0 \<le> b then x else fneg x)"
| "fdiv x y = NaN"

text \<open>The comparisons \<^verbatim>\<open><\<close> and \<^verbatim>\<open>>=\<close>: both are false when an operand is NaN.\<close>

fun flt :: "float64 \<Rightarrow> float64 \<Rightarrow> bool" where
  "flt NaN y = False"
| "flt x NaN = False"
| "flt (Num a) (Num b) = (a < b)"
| "flt x NegInf = False"
| "flt PosInf y = False"
| "flt NegInf y = True"
| "flt x PosInf = True"

definition fge :: "float64 \<Rightarrow> float64 \<Rightarrow> bool" where
  "fge x y = (x \<noteq> NaN \<and> y \<noteq> NaN \<and> \<not> flt x y)"

definition is_integer :: "real \<Rightarrow> bool" where
  "is_integer y = (y = of_int \<lfloor>y\<rfloor>)"

definition is_odd_integer :: "real \<Rightarrow> bool" where
  "is_odd_integer y = (is_integer y \<and> odd \<lfloor>y\<rfloor>)"

text \<open>
  \<^verbatim>\<open>math.Pow\<close> of the Go library.  Its general case, for finite x and y that no
  special case takes, is the library's own algorithm (the portable \<^verbatim>\<open>pow.go\<close>): the
  fraction and the exponent of x are multiplied up along the binary digits of the whole
  part of y, each product rounded, and the result is scaled by \<^verbatim>\<open>Ldexp\<close>; the
  exponents 1/2 and -1/2 go to \<^verbatim>\<open>Sqrt\<close>.  The engine raises a pheromone to
  \<^verbatim>\<open>alpha\<close>, which is 1 and a special case, and an inverse distance to \<^verbatim>\<open>beta\<close>,
  which is 5.  Only a y with a fractional part reaches \<^verbatim>\<open>Exp\<close> and \<^verbatim>\<open>Log\<close>, which
  the library approximates; they are taken here as the values of the format nearest to
  the real functions.
\<close>

definition Sqrt :: "float64 \<Rightarrow> float64" where
  "Sqrt x = (case x of Num a \<Rightarrow> if a < 0 then NaN else round64 (sqrt a)
             | PosInf \<Rightarrow> PosInf | _ \<Rightarrow> NaN)"

definition Exp :: "float64 \<Rightarrow> float64" where
  "Exp x = (case x of Num a \<Rightarrow> round64 (exp a) | PosInf \<Rightarrow> PosInf | NegInf \<Rightarrow> Num 0
            | NaN \<Rightarrow> NaN)"

definition Log :: "float64 \<Rightarrow> float64" where
  "Log x = (case x of Num a \<Rightarrow> if a < 0 then NaN else if a = 0 then NegInf else round64 (ln a)
            | PosInf \<Rightarrow> PosInf | _ \<Rightarrow> NaN)"

text \<open>\<^verbatim>\<open>Frexp\<close> splits a finite number other than zero into a fraction, of absolute
  value in [1/2, 1), and a power of two; \<^verbatim>\<open>Ldexp\<close> multiplies by a power of two, with
  one rounding.\<close>

definition Frexp :: "real \<Rightarrow> float64 \<times> int" where
  "Frexp a = (let e = \<lfloor>log 2 \<bar>a\<bar>\<rfloor> + 1 in (Num (a / 2 powi e), e))"

definition Ldexp :: "float64 \<Rightarrow> int \<Rightarrow> float64" where
  "Ldexp x e = (case x of Num a \<Rightarrow> round64 (a * 2 powi e) | _ \<Rightarrow> x)"

text \<open>The loop \<^verbatim>\<open>for i := int64(yi); i != 0; i >>= 1\<close>, on the fraction x1 and the
  exponent xe of x and the result a1 * 2 ^ ae so far.\<close>

function pow_loop :: "int \<Rightarrow> float64 \<Rightarrow> int \<Rightarrow> float64 \<Rightarrow> int \<Rightarrow> float64 \<times> int" where
  "pow_loop i x1 xe a1 ae =
     (if i \<le> 0 then (a1, ae)
      else if xe < - 4096 \<or> 4096 < xe then (a1, ae + xe)
      else let (a1', ae') = (if odd i then (fmul a1 x1, ae + xe) else (a1, ae));
               x2 = fmul x1 x1;
               xe2 = 2 * xe;
               (x3, xe3) = (if flt x2 (Num (1 / 2)) then (fadd x2 x2, xe2 - 1) else (x2, xe2))
           in pow_loop (i div 2) x3 xe3 a1' ae')"
  by pat_completeness auto
termination
  by (relation "measure (\<lambda>(i, x1, xe, a1, ae). nat i)") auto

declare pow_loop.simps [simp del]

text \<open>The whole part yi and the fractional part yf of the absolute value of y come from
  \<^verbatim>\<open>Modf\<close>, which is exact.\<close>

definition pow_finite :: "real \<Rightarrow> real \<Rightarrow> float64" where
  "pow_finite a b =
     (if b = 1 / 2 then Sqrt (Num a)
      else if b = - 1 / 2 then fdiv (Num 1) (Sqrt (Num a))
      else let yi = \<lfloor>\<bar>b\<bar>\<rfloor>; yf = \<bar>b\<bar> - of_int yi
           in if yf \<noteq> 0 \<and> a < 0 then NaN
              else if 2 ^ 63 \<le> yi then
                (if a = - 1 then Num 1 else if (\<bar>a\<bar> < 1) = (0 < b) then Num 0 else PosInf)
              else let (a0, i) =
                         (if yf = 0 then (Num 1, yi)
                          else if 1 / 2 < yf
                            then (Exp (fmul (Num (yf - 1)) (Log (Num a))), yi + 1)
                            else (Exp (fmul (Num yf) (Log (Num a))), yi));
                       (x1, xe) = Frexp a;
                       (a1, ae) = pow_loop i x1 xe a0 0
                   in if b < 0 then Ldexp (fdiv (Num 1) a1) (- ae) else Ldexp a1 ae)"

text \<open>The special cases, as the library documents them and in their order.\<close>

definition Pow :: "float64 \<Rightarrow> float64 \<Rightarrow> float64" where
  "Pow x y =
     (if y = Num 0 then Num 1
      else if x = Num 1 then Num 1
      else if y = Num 1 then x
      else if x = NaN \<or> y = NaN then NaN
      else (case (x, y) of
          (Num a, Num b) \<Rightarrow>
            if a = 0 then (if b < 0 then PosInf else Num 0)
            else pow_finite a b
        | (Num a, PosInf) \<Rightarrow>
            if a = - 1 then Num 1 else if 1 < \<bar>a\<bar> then PosInf else Num 0
        | (Num a, NegInf) \<Rightarrow>
            if a = - 1 then Num 1 else if 1 < \<bar>a\<bar> then Num 0 else PosInf
        | (PosInf, Num b) \<Rightarrow> if 0 < b then PosInf else Num 0
        | (PosInf, PosInf) \<Rightarrow> PosInf
        | (PosInf, NegInf) \<Rightarrow> Num 0
        | (NegInf, Num b) \<Rightarrow>
            if 0 < b then (if is_odd_integer b then NegInf else PosInf) else Num 0
        | (NegInf, PosInf) \<Rightarrow> PosInf
        | (NegInf, NegInf) \<Rightarrow> Num 0
        | _ \<Rightarrow> NaN))"

text \<open>A value is non-negative when it is a finite number that is at least zero, or
  positive infinity: what \<^verbatim>\<open>x >= 0\<close> says in Go.\<close>

definition nonneg :: "float64 \<Rightarrow> bool" where
  "nonneg x = fge x (Num 0)"

subsection \<open>Panics\<close>

text \<open>
  A Go panic ends the call.  \<^verbatim>\<open>IndexOutOfRange\<close> is the runtime's panic on a slice
  index outside the slice, \<^verbatim>\<open>InvalidArgument\<close> the panic of \<^verbatim>\<open>Intn\<close> on an argument
  that is not positive, and \<^verbatim>\<open>NoOtherCities\<close> the panic of \<^verbatim>\<open>selectNextCity\<close>.
\<close>

datatype panic = IndexOutOfRange | InvalidArgument | NoOtherCities

type_synonym 'a result = "panic + 'a"

definition bindR :: "'a result \<Rightarrow> ('a \<Rightarrow> 'b result) \<Rightarrow> 'b result" where
  "bindR m f = (case m of Inl e \<Rightarrow> Inl e | Inr x \<Rightarrow> f x)"

text \<open>A loop over a range whose bounds the body does not change; a panic in the body
  ends the loop.\<close>

fun foldR :: "('a \<Rightarrow> 's \<Rightarrow> 's result) \<Rightarrow> 'a list \<Rightarrow> 's \<Rightarrow> 's result" where
  "foldR f [] s = Inr s"
| "foldR f (x # xs) s = (case f x s of Inl e \<Rightarrow> Inl e | Inr s' \<Rightarrow> foldR f xs s')"

fun mapR :: "('a \<Rightarrow> 'b result) \<Rightarrow> 'a list \<Rightarrow> 'b list result" where
  "mapR f [] = Inr []"
| "mapR f (x # xs) =
     (case f x of Inl e \<Rightarrow> Inl e
      | Inr y \<Rightarrow> (case mapR f xs of Inl e \<Rightarrow> Inl e | Inr ys \<Rightarrow> Inr (y # ys)))"

text \<open>Reading and writing a slice at a Go \<^verbatim>\<open>int\<close> index, with the bounds check.\<close>

definition index :: "'a list \<Rightarrow> int \<Rightarrow> 'a result" where
  "index xs i = (if 0 \<le> i \<and> i < int (length xs) then Inr (xs ! nat i) else Inl IndexOutOfRange)"

definition store :: "'a list \<Rightarrow> int \<Rightarrow> 'a \<Rightarrow> 'a list result" where
  "store xs i v =
     (if 0 \<le> i \<and> i < int (length xs) then Inr (xs[nat i := v]) else Inl IndexOutOfRange)"

definition index2 :: "'a list list \<Rightarrow> int \<Rightarrow> int \<Rightarrow> 'a result" where
  "index2 m i j = bindR (index m i) (\<lambda>row. index row j)"

definition store2 :: "'a list list \<Rightarrow> int \<Rightarrow> int \<Rightarrow> 'a \<Rightarrow> 'a list list result" where
  "store2 m i j v = bindR (index m i) (\<lambda>row. bindR (store row j v) (\<lambda>row'. store m i row'))"

subsection \<open>The random source\<close>

text \<open>
  \<^verbatim>\<open>rd.random\<close> is a generator of the Go library, seeded from the clock.  It is modelled
  by the sequence of uniform variates it will produce: \<^verbatim>\<open>tape g k\<close> is the k-th one,
  read modulo 1, and \<^verbatim>\<open>pos g\<close> counts the draws made so far.  \<^verbatim>\<open>Float64\<close> returns
  the variate, a number in [0, 1); \<^verbatim>\<open>Intn n\<close> scales it to an integer in [0, n) and
  panics when n is not positive, as the library documents.
\<close>

record rng =
  tape :: "nat \<Rightarrow> real"
  pos :: nat

definition Intn :: "int \<Rightarrow> rng \<Rightarrow> (int \<times> rng) result" where
  "Intn n g =
     (if n \<le> 0 then Inl InvalidArgument
      else Inr (\<lfloor>frac (tape g (pos g)) * of_int n\<rfloor>, g\<lparr>pos := Suc (pos g)\<rparr>))"

definition Float64 :: "rng \<Rightarrow> float64 \<times> rng" where
  "Float64 g = (Num (frac (tape g (pos g))), g\<lparr>pos := Suc (pos g)\<rparr>)"

text \<open>A generator that produces the listed variates, then zeros.\<close>

definition rng_of :: "real list \<Rightarrow> rng" where
  "rng_of us = \<lparr>tape = (\<lambda>k. if k < length us then us ! k else 0), pos = 0\<rparr>"

section \<open>The data model\<close>

text \<open>
  A Go \<^verbatim>\<open>int\<close> or \<^verbatim>\<open>int64\<close> is an integer here: the engine counts cities, ants, steps
  and ranks, none beyond the number of tasks, and only compares task identifiers, so that
  no arithmetic of the engine can overflow.
\<close>

record FacetsValue =
  Bandwidth :: float64
  Latency :: float64
  CPU :: float64
  RetryLimit :: int
  Timeout :: float64

text \<open>Of \<^verbatim>\<open>AllocatedTaskInfo\<close> the engine reads the identifier and the facets only.\<close>

record AllocatedTaskInfo =
  TaskID :: int
  Facets :: FacetsValue

record Ant =
  trail :: "int list"
  visited :: "bool list"
  trailSize :: int
  trailLength :: float64
  tourLength :: float64
  facetsValues :: FacetsValue

text \<open>
  \<^verbatim>\<open>bestTourOrder\<close> is a slice: nil, or the very array of an ant's trail (after
  \<^verbatim>\<open>rd.bestTourOrder = rd.ants[0].trail\<close>, which copies the slice header and shares the
  array), or an array of its own (after \<^verbatim>\<open>make\<close> and \<^verbatim>\<open>copy\<close>).
\<close>

datatype tour_ref = NilTour | TrailOf nat | Owned "int list"

record RouteDiscovery =
  tasks :: "AllocatedTaskInfo list"
  pheromones :: "float64 list list"
  distances :: "float64 list list"
  alpha :: float64
  beta :: float64
  initialPheromone :: float64
  remainingFactor :: float64
  q :: float64
  randomFactor :: float64
  maxIterations :: int
  numberOfCities :: int
  numberOfAnts :: int
  antFactor :: float64
  ants :: "Ant list"
  random :: rng
  probabilities :: "float64 list"
  currentIndex :: int
  bestTourOrder :: tour_ref
  bestTourLength :: float64

section \<open>The engine\<close>

definition getTotalCities :: "RouteDiscovery \<Rightarrow> int" where
  "getTotalCities rd = int (length (remdups (map TaskID (tasks rd))))"

text \<open>
  Each loop of the matrix methods writes one field of \<^verbatim>\<open>rd\<close> and only reads the
  others, so the loop carries that field and the method stores it back at the end.
\<close>

definition generateDistanceMatrix :: "RouteDiscovery \<Rightarrow> RouteDiscovery result" where
  "generateDistanceMatrix rd =
     bindR (foldR (\<lambda>i m1.
                foldR (\<lambda>j m.
                    if i = j then store2 m i j (Num 0)
                    else bindR (index (tasks rd) i) (\<lambda>t. store2 m i j (Latency (Facets t))))
                  [0 .. numberOfCities rd - 1] m1)
              [0 .. numberOfCities rd - 1] (distances rd)) (\<lambda>m.
     Inr (rd\<lparr>distances := m\<rparr>))"

definition clearTrails :: "RouteDiscovery \<Rightarrow> RouteDiscovery result" where
  "clearTrails rd =
     bindR (foldR (\<lambda>i m1.
                foldR (\<lambda>j m. store2 m i j (initialPheromone rd))
                  [0 .. numberOfCities rd - 1] m1)
              [0 .. numberOfCities rd - 1] (pheromones rd)) (\<lambda>m.
     Inr (rd\<lparr>pheromones := m\<rparr>))"

text \<open>
  \<^verbatim>\<open>NewRouteDiscovery\<close>: the generator, which the source seeds from the clock, is a
  parameter.  The decimal constants stand for themselves.
\<close>

definition NewRouteDiscovery :: "rng \<Rightarrow> AllocatedTaskInfo list \<Rightarrow> RouteDiscovery result" where
  "NewRouteDiscovery seed ts =
     (let rd = \<lparr>tasks = ts, pheromones = [], distances = [],
                alpha = Num 1, beta = Num 5, initialPheromone = Num 1,
                remainingFactor = Num (1 / 2), q = Num 500, randomFactor = Num (1 / 100),
                maxIterations = 1000, numberOfCities = 0, numberOfAnts = 0,
                antFactor = Num (4 / 5), ants = [], random = seed, probabilities = [],
                currentIndex = 0, bestTourOrder = NilTour, bestTourLength = Num 0\<rparr>;
          rd = rd\<lparr>numberOfCities := getTotalCities rd\<rparr>;
          rd = rd\<lparr>numberOfAnts := numberOfCities rd\<rparr>;
          n = nat (numberOfCities rd);
          rd = rd\<lparr>pheromones := replicate n (replicate n (Num 0))\<rparr>;
          rd = rd\<lparr>distances := replicate n (replicate n (Num 0))\<rparr>;
          rd = rd\<lparr>probabilities := replicate n (Num 0)\<rparr>
      in bindR (generateDistanceMatrix rd) clearTrails)"

text \<open>The array a \<^verbatim>\<open>range\<close> over \<^verbatim>\<open>rd.bestTourOrder\<close> walks; a nil slice has no element.
  The slice shares the trail of ant k only after \<^verbatim>\<open>updateBest\<close> has read \<^verbatim>\<open>rd.ants[0]\<close>,
  so that the ant exists.\<close>

definition tour_slice :: "RouteDiscovery \<Rightarrow> int list" where
  "tour_slice rd =
     (case bestTourOrder rd of
        NilTour \<Rightarrow> []
      | TrailOf k \<Rightarrow> trail (ants rd ! k)
      | Owned xs \<Rightarrow> xs)"

definition getPriorityMap :: "RouteDiscovery \<Rightarrow> (int \<rightharpoonup> int)" where
  "getPriorityMap rd =
     fst (fold (\<lambda>taskID (priorityMap, priority). (priorityMap(taskID \<mapsto> priority), priority + 1))
            (tour_slice rd) (Map.empty, 1))"

subsection \<open>Ants\<close>

text \<open>The size given to \<^verbatim>\<open>newAnt\<close> is the number of cities, which is the size of a map
  and not negative; \<^verbatim>\<open>make\<close> does not panic on it.\<close>

definition newAnt :: "int \<Rightarrow> FacetsValue \<Rightarrow> Ant" where
  "newAnt tsize fv =
     \<lparr>trail = replicate (nat tsize) 0, visited = replicate (nat tsize) False,
      trailSize = tsize, trailLength = Num 0, tourLength = Num 0, facetsValues = fv\<rparr>"

definition visitCity :: "Ant \<Rightarrow> int \<Rightarrow> int \<Rightarrow> Ant result" where
  "visitCity ant current city =
     bindR (store (trail ant) (current + 1) city) (\<lambda>tr.
     bindR (store (visited ant) city True) (\<lambda>vs.
     Inr (ant\<lparr>trail := tr, visited := vs\<rparr>)))"

definition clear :: "Ant \<Rightarrow> Ant result" where
  "clear ant0 =
     foldR (\<lambda>i ant. bindR (store (visited ant) i False) (\<lambda>vs. Inr (ant\<lparr>visited := vs\<rparr>)))
       [0 .. trailSize ant0 - 1] ant0"

text \<open>\<^verbatim>\<open>calculateTourLength\<close>: the closing edge first, then the edges of the trail.\<close>

definition calculateTourLength :: "Ant \<Rightarrow> float64 list list \<Rightarrow> Ant result" where
  "calculateTourLength ant0 dm =
     bindR (index (trail ant0) (trailSize ant0 - 1)) (\<lambda>a.
     bindR (index (trail ant0) 0) (\<lambda>b.
     bindR (index2 dm a b) (\<lambda>d.
     foldR (\<lambda>i ant.
         bindR (index (trail ant) i) (\<lambda>c.
         bindR (index (trail ant) (i + 1)) (\<lambda>c'.
         bindR (index2 dm c c') (\<lambda>e.
         Inr (ant\<lparr>tourLength := fadd (tourLength ant) e\<rparr>)))))
       [0 .. trailSize ant0 - 2] (ant0\<lparr>tourLength := d\<rparr>))))"

text \<open>
  The ants are reached through pointers; here an ant is a position of \<^verbatim>\<open>rd.ants\<close>, and
  a method that changes the ant writes the changed ant back to its position.
\<close>

definition put_ant :: "RouteDiscovery \<Rightarrow> nat \<Rightarrow> Ant \<Rightarrow> RouteDiscovery" where
  "put_ant rd k ant = rd\<lparr>ants := (ants rd)[k := ant]\<rparr>"

text \<open>
  \<^verbatim>\<open>setupAnts\<close> replaces \<^verbatim>\<open>rd.ants\<close> by new ants.  A \<^verbatim>\<open>bestTourOrder\<close> that shared the
  array of an old ant's trail keeps that array, which nothing else reaches any more.
  The printing is left out.
\<close>

definition setupAnts :: "RouteDiscovery \<Rightarrow> RouteDiscovery result" where
  "setupAnts rd0 =
     bindR (mapR (\<lambda>i. bindR (index (tasks rd0) i) (\<lambda>t.
                    Inr (newAnt (numberOfCities rd0) (Facets t))))
              [0 .. numberOfAnts rd0 - 1]) (\<lambda>new.
     bindR (foldR (\<lambda>k rd.
                bindR (clear (ants rd ! k)) (\<lambda>ant.
                bindR (Intn (numberOfCities rd) (random rd)) (\<lambda>(city, g).
                bindR (visitCity ant (- 1) city) (\<lambda>ant'.
                Inr (put_ant (rd\<lparr>random := g\<rparr>) k ant')))))
              [0 ..< length new]
              (rd0\<lparr>ants := new,
                   bestTourOrder := (case bestTourOrder rd0 of
                                       TrailOf k \<Rightarrow> Owned (trail (ants rd0 ! k))
                                     | r \<Rightarrow> r)\<rparr>)) (\<lambda>rd.
     Inr (rd\<lparr>currentIndex := 0\<rparr>)))"

subsection \<open>Choosing the next city\<close>

definition desirability :: "RouteDiscovery \<Rightarrow> Ant \<Rightarrow> int \<Rightarrow> int \<Rightarrow> float64 result" where
  "desirability rd ant i l =
     bindR (index2 (pheromones rd) i l) (\<lambda>p.
     bindR (index2 (distances rd) i l) (\<lambda>d.
     Inr (fmul (Pow p (alpha rd))
               (Pow (fmul (fdiv (Num 1) d) (CPU (facetsValues ant))) (beta rd)))))"

definition calculateProbabilities :: "RouteDiscovery \<Rightarrow> Ant \<Rightarrow> RouteDiscovery result" where
  "calculateProbabilities rd ant =
     bindR (index (trail ant) (currentIndex rd)) (\<lambda>i.
     bindR (foldR (\<lambda>l pheromone.
                bindR (index (visited ant) l) (\<lambda>v.
                if \<not> v then bindR (desirability rd ant i l) (\<lambda>x. Inr (fadd pheromone x))
                else Inr pheromone))
              [0 .. numberOfCities rd - 1] (Num 0)) (\<lambda>pheromone.
     bindR (foldR (\<lambda>j ps.
                bindR (index (visited ant) j) (\<lambda>v.
                if v then store ps j (Num 0)
                else bindR (desirability rd ant i j) (\<lambda>numerator.
                     store ps j (fdiv numerator pheromone))))
              [0 .. numberOfCities rd - 1] (probabilities rd)) (\<lambda>ps.
     Inr (rd\<lparr>probabilities := ps\<rparr>))))"

text \<open>The two loops of \<^verbatim>\<open>selectNextCity\<close> that return from inside: the result is the
  city returned, if any.\<close>

fun random_pick :: "int \<Rightarrow> bool list \<Rightarrow> int list \<Rightarrow> int option result" where
  "random_pick t vs [] = Inr None"
| "random_pick t vs (i # rest) =
     (if i = t then
        bindR (index vs i) (\<lambda>v. if \<not> v then Inr (Some i) else random_pick t vs rest)
      else random_pick t vs rest)"

fun roulette :: "float64 list \<Rightarrow> float64 \<Rightarrow> float64 \<Rightarrow> int list \<Rightarrow> int result" where
  "roulette ps r tot [] = Inl NoOtherCities"
| "roulette ps r tot (i # rest) =
     bindR (index ps i) (\<lambda>p.
       if fge (fadd tot p) r then Inr i else roulette ps r (fadd tot p) rest)"

definition selectNextCity :: "RouteDiscovery \<Rightarrow> Ant \<Rightarrow> (int \<times> RouteDiscovery) result" where
  "selectNextCity rd0 ant =
     bindR (Intn (numberOfCities rd0 - currentIndex rd0) (random rd0)) (\<lambda>(t, g1).
     let (u, g2) = Float64 g1; rd1 = rd0\<lparr>random := g2\<rparr> in
     bindR (if flt u (randomFactor rd1)
            then random_pick t (visited ant) [0 .. numberOfCities rd1 - 1]
            else Inr None) (\<lambda>picked.
     case picked of
       Some i \<Rightarrow> Inr (i, rd1)
     | None \<Rightarrow>
         bindR (calculateProbabilities rd1 ant) (\<lambda>rd2.
         let (r, g3) = Float64 (random rd2); rd3 = rd2\<lparr>random := g3\<rparr> in
         bindR (roulette (probabilities rd3) r (Num 0) [0 .. numberOfCities rd3 - 1]) (\<lambda>i.
         Inr (i, rd3)))))"

subsection \<open>The iteration\<close>

definition moveAnts :: "RouteDiscovery \<Rightarrow> RouteDiscovery result" where
  "moveAnts rd0 =
     foldR (\<lambda>i rd1.
         bindR (foldR (\<lambda>k rd.
                    bindR (selectNextCity rd (ants rd ! k)) (\<lambda>(city, rd').
                    bindR (visitCity (ants rd' ! k) (currentIndex rd') city) (\<lambda>ant'.
                    Inr (put_ant rd' k ant'))))
                  [0 ..< length (ants rd1)] rd1) (\<lambda>rd2.
         Inr (rd2\<lparr>currentIndex := currentIndex rd2 + 1\<rparr>)))
       [currentIndex rd0 .. numberOfCities rd0 - 2] rd0"

definition add_pheromone :: "float64 list list \<Rightarrow> int \<Rightarrow> int \<Rightarrow> float64 \<Rightarrow> float64 list list result" where
  "add_pheromone m a b c = bindR (index2 m a b) (\<lambda>p. store2 m a b (fadd p c))"

definition updateTrails :: "RouteDiscovery \<Rightarrow> RouteDiscovery result" where
  "updateTrails rd =
     bindR (foldR (\<lambda>i m1.
                foldR (\<lambda>j m.
                    bindR (index2 m i j) (\<lambda>p. store2 m i j (fmul p (remainingFactor rd))))
                  [0 .. numberOfCities rd - 1] m1)
              [0 .. numberOfCities rd - 1] (pheromones rd)) (\<lambda>evaporated.
     bindR (foldR (\<lambda>ant m2.
                let contribution = fdiv (q rd) (tourLength ant) in
                bindR (foldR (\<lambda>i m.
                           bindR (index (trail ant) i) (\<lambda>a.
                           bindR (index (trail ant) (i + 1)) (\<lambda>b.
                           add_pheromone m a b contribution)))
                         [0 .. numberOfCities rd - 2] m2) (\<lambda>m3.
                bindR (index (trail ant) (numberOfCities rd - 1)) (\<lambda>a.
                bindR (index (trail ant) 0) (\<lambda>b.
                add_pheromone m3 a b contribution))))
              (ants rd) evaporated) (\<lambda>m.
     Inr (rd\<lparr>pheromones := m\<rparr>)))"

definition updateBest :: "RouteDiscovery \<Rightarrow> RouteDiscovery result" where
  "updateBest rd0 =
     bindR (if bestTourOrder rd0 = NilTour then
              bindR (index (ants rd0) 0) (\<lambda>ant.
              Inr (rd0\<lparr>bestTourOrder := TrailOf 0, bestTourLength := tourLength ant\<rparr>))
            else Inr rd0) (\<lambda>rd1.
     foldR (\<lambda>ant rd.
         if flt (tourLength ant) (bestTourLength rd) then
           Inr (rd\<lparr>bestTourLength := tourLength ant, bestTourOrder := Owned (trail ant)\<rparr>)
         else Inr rd)
       (ants rd1) rd1)"

text \<open>One pass of the loop body of \<^verbatim>\<open>InitiateOptimization\<close>, and the loop.\<close>

definition iteration :: "RouteDiscovery \<Rightarrow> RouteDiscovery result" where
  "iteration rd = bindR (moveAnts rd) (\<lambda>rd1. bindR (updateTrails rd1) updateBest)"

fun iterations :: "nat \<Rightarrow> RouteDiscovery \<Rightarrow> RouteDiscovery result" where
  "iterations 0 rd = Inr rd"
| "iterations (Suc k) rd = bindR (iteration rd) (iterations k)"

definition InitiateOptimization :: "RouteDiscovery \<Rightarrow> RouteDiscovery result" where
  "InitiateOptimization rd =
     bindR (setupAnts rd) (\<lambda>rd1.
     bindR (clearTrails rd1) (\<lambda>rd2.
     iterations (nat (maxIterations rd2)) rd2))"

section \<open>Auxiliary notions\<close>

text \<open>A matrix of n rows of n entries.\<close>

definition square :: "nat \<Rightarrow> 'a list list \<Rightarrow> bool" where
  "square n m = (length m = n \<and> (\<forall>i<n. length (m ! i) = n))"

text \<open>A task with the given identifier, latency and CPU weight; the other facets are zero.\<close>

definition example_task :: "int \<Rightarrow> real \<Rightarrow> real \<Rightarrow> AllocatedTaskInfo" where
  "example_task tid lat cpu =
     \<lparr>TaskID = tid,
      Facets = \<lparr>Bandwidth = Num 0, Latency = Num lat, CPU = Num cpu, RetryLimit = 0,
                Timeout = Num 0\<rparr>\<rparr>"

text \<open>The engine for the tasks, with its ants set up and the trails cleared: the state
  in which \<^verbatim>\<open>InitiateOptimization\<close> enters its loop.\<close>

definition prepared :: "rng \<Rightarrow> AllocatedTaskInfo list \<Rightarrow> RouteDiscovery result" where
  "prepared seed ts = bindR (NewRouteDiscovery seed ts) (\<lambda>rd. bindR (setupAnts rd) clearTrails)"

text \<open>
  Frames.  Tour construction writes the trails, the membership sets, the random source,
  the probabilities and \<^verbatim>\<open>currentIndex\<close>; \<^verbatim>\<open>setupAnts\<close> writes the ants, the random
  source, \<^verbatim>\<open>currentIndex\<close> and the place of \<^verbatim>\<open>bestTourOrder\<close>; \<^verbatim>\<open>updateBest\<close> writes
  the best tour and its length.  Each projection blanks what may be written, so that two
  engines agree on the rest when their projections are equal.
\<close>

definition bare :: "Ant \<Rightarrow> Ant" where
  "bare ant = ant\<lparr>trail := [], visited := []\<rparr>"

definition outside_construction :: "RouteDiscovery \<Rightarrow> RouteDiscovery" where
  "outside_construction rd =
     rd\<lparr>random := rng_of [], probabilities := [], currentIndex := 0,
        ants := map bare (ants rd)\<rparr>"

definition without_best :: "RouteDiscovery \<Rightarrow> RouteDiscovery" where
  "without_best rd = rd\<lparr>bestTourOrder := NilTour, bestTourLength := Num 0\<rparr>"

definition outside_setup :: "RouteDiscovery \<Rightarrow> RouteDiscovery" where
  "outside_setup rd = rd\<lparr>ants := [], random := rng_of [], bestTourOrder := NilTour, currentIndex := 0\<rparr>"

text \<open>The city the k-th draw of \<^verbatim>\<open>Intn n\<close> after the generator state g yields.\<close>

definition drawn_city :: "rng \<Rightarrow> int \<Rightarrow> nat \<Rightarrow> int" where
  "drawn_city g n k = \<lfloor>frac (tape g (pos g + k)) * of_int n\<rfloor>"

text \<open>Orders on \<^verbatim>\<open>float64\<close>: equal or strictly smaller; and a matrix with no negative
  entry and no NaN.\<close>

definition same_or_less :: "float64 \<Rightarrow> float64 \<Rightarrow> bool" where
  "same_or_less x y = (x = y \<or> flt x y)"

definition all_nonneg :: "float64 list list \<Rightarrow> bool" where
  "all_nonneg m = (\<forall>row\<in>set m. \<forall>x\<in>set row. nonneg x)"

text \<open>The finite values of \<^verbatim>\<open>float64\<close>: a significand below 2 to the power 53 in
  absolute value, at a spacing that is not below 2 to the power -1074.\<close>

definition representable :: "real \<Rightarrow> bool" where
  "representable x =
     (\<exists>m k. x = of_int m * 2 powi k \<and> \<bar>m\<bar> < 2 ^ 53 \<and> - 1074 \<le> k \<and> \<bar>x\<bar> < 2 ^ 1024)"

text \<open>What an operation can return: a special value, or a finite value of the format.\<close>

definition rounded :: "float64 \<Rightarrow> bool" where
  "rounded x = (case x of Num a \<Rightarrow> representable a | _ \<Rightarrow> True)"

text \<open>
  The selection of the next city, in the words of the specification.  The desirability
  score of city l for an ant on city i, as \<^verbatim>\<open>calculateProbabilities\<close> computes it; the sum
  of the scores of the unvisited cities; the probabilities, zero for a visited city and
  the score divided by that sum for an unvisited one; the cumulative probability of the
  first k cities; and the wheel, which returns the first city whose cumulative
  probability is at least the draw.
\<close>

definition score :: "RouteDiscovery \<Rightarrow> Ant \<Rightarrow> nat \<Rightarrow> nat \<Rightarrow> float64" where
  "score rd ant i l =
     fmul (Pow (pheromones rd ! i ! l) (alpha rd))
          (Pow (fmul (fdiv (Num 1) (distances rd ! i ! l)) (CPU (facetsValues ant))) (beta rd))"

definition unvisited_sum :: "RouteDiscovery \<Rightarrow> Ant \<Rightarrow> nat \<Rightarrow> float64" where
  "unvisited_sum rd ant i =
     foldl fadd (Num 0)
       (map (score rd ant i)
          (filter (\<lambda>l. \<not> visited ant ! l) [0 ..< nat (numberOfCities rd)]))"

definition normalized :: "RouteDiscovery \<Rightarrow> Ant \<Rightarrow> nat \<Rightarrow> float64 list" where
  "normalized rd ant i =
     map (\<lambda>j. if visited ant ! j then Num 0
              else fdiv (score rd ant i j) (unvisited_sum rd ant i))
       [0 ..< nat (numberOfCities rd)]"

definition cumulative :: "float64 list \<Rightarrow> nat \<Rightarrow> float64" where
  "cumulative ps k = foldl fadd (Num 0) (take k ps)"

definition wheel :: "float64 list \<Rightarrow> float64 \<Rightarrow> nat option" where
  "wheel ps r = find (\<lambda>c. fge (cumulative ps (Suc c)) r) [0 ..< length ps]"

text \<open>
  An ant that has placed k cities: the first k entries of its trail are distinct city
  indices, and its membership set marks exactly them.  An engine of n cities whose
  matrices and probabilities have that size.
\<close>

definition placed :: "nat \<Rightarrow> nat \<Rightarrow> Ant \<Rightarrow> bool" where
  "placed n k ant =
     (length (trail ant) = n \<and> length (visited ant) = n \<and> k \<le> n \<and>
      distinct (take k (trail ant)) \<and>
      (\<forall>c<n. visited ant ! c \<longleftrightarrow> int c \<in> set (take k (trail ant))) \<and>
      (\<forall>x\<in>set (take k (trail ant)). 0 \<le> x \<and> x < int n))"

definition sound :: "nat \<Rightarrow> RouteDiscovery \<Rightarrow> bool" where
  "sound n rd =
     (numberOfCities rd = int n \<and> square n (pheromones rd) \<and> square n (distances rd) \<and>
      length (probabilities rd) = n)"


text \<open>
  \<^verbatim>\<open>updateBest\<close> makes the best tour share the array of the first ant's trail only
  after \<^verbatim>\<open>moveAnts\<close> has run, when \<^verbatim>\<open>currentIndex\<close> has reached numberOfCities - 1,
  and \<^verbatim>\<open>setupAnts\<close>, which resets \<^verbatim>\<open>currentIndex\<close>, leaves that array to the best
  tour alone.  So in every state that the engine reaches, a best tour that shares an
  ant's trail finds the construction finished.
\<close>

definition settled :: "RouteDiscovery \<Rightarrow> bool" where
  "settled rd =
     (case bestTourOrder rd of
        TrailOf k \<Rightarrow> numberOfCities rd - 1 \<le> currentIndex rd
      | _ \<Rightarrow> True)"

section \<open>Rounding\<close>

lemma round_even_of_int [simp]: "round_even (of_int m) = m"
  by (simp add: round_even_def)

lemma round_even_ge: "of_int k \<le> x \<Longrightarrow> k \<le> round_even x"
proof -
  assume "of_int k \<le> x"
  then have "k \<le> \<lfloor>x\<rfloor>" by (simp add: le_floor_iff)
  then show ?thesis by (auto simp: round_even_def Let_def)
qed

lemma round_even_le: "x \<le> of_int k \<Longrightarrow> round_even x \<le> k"
proof -
  assume x: "x \<le> of_int k"
  show ?thesis
  proof (cases "x = of_int k")
    case True
    then show ?thesis by simp
  next
    case False
    with x have "x < of_int k" by simp
    then have "\<lfloor>x\<rfloor> < k" by (simp add: floor_less_iff)
    then show ?thesis by (auto simp: round_even_def Let_def)
  qed
qed

lemma two_powr: "2 powr real_of_int k = 2 powi k"
  by (rule powr_real_of_int') simp_all

lemma two_powi_add: "(2::real) powi (a + b) = 2 powi a * 2 powi b"
  by (rule power_int_add) simp

lemma floor_log2:
  assumes "x \<noteq> 0"
  shows "2 powi \<lfloor>log 2 \<bar>x\<bar>\<rfloor> \<le> \<bar>x\<bar>" and "\<bar>x\<bar> < 2 powi (\<lfloor>log 2 \<bar>x\<bar>\<rfloor> + 1)"
proof -
  from assms have "0 < \<bar>x\<bar>" by simp
  from floor_log_eq_powr_iff[OF this, of 2 "\<lfloor>log 2 \<bar>x\<bar>\<rfloor>"]
  have "2 powr real_of_int \<lfloor>log 2 \<bar>x\<bar>\<rfloor> \<le> \<bar>x\<bar>"
    and "\<bar>x\<bar> < 2 powr real_of_int (\<lfloor>log 2 \<bar>x\<bar>\<rfloor> + 1)" by simp_all
  then show "2 powi \<lfloor>log 2 \<bar>x\<bar>\<rfloor> \<le> \<bar>x\<bar>" and "\<bar>x\<bar> < 2 powi (\<lfloor>log 2 \<bar>x\<bar>\<rfloor> + 1)"
    by (simp_all only: two_powr)
qed

lemma two_powi_less: "(2::real) powi a < 2 powi b \<Longrightarrow> a < b"
  by (rule ccontr) (simp add: not_less power_int_increasing not_le[symmetric])

lemma two_powi_le: "a \<le> b \<Longrightarrow> (2::real) powi a \<le> 2 powi b"
  by (rule power_int_increasing) simp_all

lemma exponent_upper: "x \<noteq> 0 \<Longrightarrow> \<bar>x\<bar> < 2 powi (exponent x + 1)"
proof -
  assume x: "x \<noteq> 0"
  have "2 powi (\<lfloor>log 2 \<bar>x\<bar>\<rfloor> + 1) \<le> (2::real) powi (exponent x + 1)"
    by (rule two_powi_le) (simp add: exponent_def)
  with floor_log2(2)[OF x] show ?thesis by simp
qed

lemma exponent_eq:
  assumes "2 powi e \<le> \<bar>x\<bar>" and "\<bar>x\<bar> < 2 powi (e + 1)"
  shows "exponent x = max (- 1022) e"
proof -
  from assms(1) have "0 < \<bar>x\<bar>"
    using zero_less_power_int[of "2::real" e] by linarith
  from floor_log_eq_powr_iff[OF this, of 2 e] assms
  have "\<lfloor>log 2 \<bar>x\<bar>\<rfloor> = e" by (simp only: two_powr)
  then show ?thesis by (simp add: exponent_def)
qed

lemma round64_exact:
  assumes "representable x"
  shows "round64 x = Num x"
proof (cases "x = 0")
  case True
  then show ?thesis by (simp add: round64_def)
next
  case False
  from assms obtain m k where x: "x = of_int m * 2 powi k" and m: "\<bar>m\<bar> < 2 ^ 53"
    and k: "- 1074 \<le> k" and fin: "\<bar>x\<bar> < 2 ^ 1024"
    unfolding representable_def by blast
  define e where "e = exponent x"
  have "\<lfloor>log 2 \<bar>x\<bar>\<rfloor> < k + 53"
  proof -
    have "\<bar>x\<bar> = of_int \<bar>m\<bar> * 2 powi k" by (simp add: x abs_mult power_int_abs)
    also have "\<dots> < 2 ^ 53 * 2 powi k"
      using m by (intro mult_strict_right_mono) (simp_all add: of_int_less_iff[where 'a = real, symmetric] del: of_int_less_iff)
    also have "\<dots> = 2 powi (k + 53)" using two_powi_add[of k 53] by simp
    finally have "2 powi \<lfloor>log 2 \<bar>x\<bar>\<rfloor> < (2::real) powi (k + 53)"
      using floor_log2(1)[OF False] by linarith
    then show ?thesis by (rule two_powi_less)
  qed
  with k have ek: "e - 52 \<le> k" by (simp add: e_def exponent_def)
  define j where "j = nat (k - (e - 52))"
  have jk: "k = (e - 52) + int j" using ek by (simp add: j_def)
  have "2 powi k = (2::real) powi (e - 52) * 2 powi (int j)"
    by (subst jk) (rule two_powi_add)
  then have "2 powi k = (2::real) powi (e - 52) * 2 ^ j"
    by (simp only: power_int_of_nat)
  then have "x / 2 powi (e - 52) = of_int (m * 2 ^ j)"
    by (simp add: x)
  then have "round_even (x / 2 powi (e - 52)) = m * 2 ^ j"
    by (simp only: round_even_of_int)
  then have "of_int (round_even (x / 2 powi (e - 52))) * 2 powi (e - 52) = x"
    using \<open>2 powi k = (2::real) powi (e - 52) * 2 ^ j\<close> by (simp add: x)
  then show ?thesis
    using False fin by (simp add: round64_def Let_def e_def[symmetric])
qed

lemma round64_representable:
  assumes "round64 x = Num y"
  shows "representable y"
proof (cases "x = 0")
  case True
  with assms have "y = 0" by (simp add: round64_def)
  then show ?thesis unfolding representable_def by (intro exI[of _ 0]) simp
next
  case False
  define e where "e = exponent x"
  define M where "M = round_even (x / 2 powi (e - 52))"
  from assms False have y: "y = of_int M * 2 powi (e - 52)" and fin: "\<bar>y\<bar> < 2 ^ 1024"
    by (auto simp: round64_def Let_def e_def M_def split: if_splits)
  have "\<bar>x\<bar> < 2 powi (e + 1)" unfolding e_def by (rule exponent_upper[OF False])
  also have "\<dots> = 2 ^ 53 * 2 powi (e - 52)"
    using two_powi_add[of 53 "e - 52"] by (simp add: add.commute)
  finally have "\<bar>x\<bar> / 2 powi (e - 52) < 2 ^ 53" by (simp add: field_simps)
  then have "\<bar>x / 2 powi (e - 52)\<bar> < 2 ^ 53" by (simp add: power_int_abs)
  then have "x / 2 powi (e - 52) \<le> 2 ^ 53" "- (2 ^ 53) \<le> x / 2 powi (e - 52)"
    unfolding abs_less_iff by linarith+
  then have b: "x / 2 powi (e - 52) \<le> of_int (2 ^ 53)" "of_int (- (2 ^ 53)) \<le> x / 2 powi (e - 52)"
    by simp_all
  from round_even_le[OF b(1)] round_even_ge[OF b(2)] have M: "\<bar>M\<bar> \<le> 2 ^ 53"
    by (simp add: M_def abs_le_iff)
  have e: "- 1022 \<le> e" by (simp add: e_def exponent_def)
  show ?thesis
  proof (cases "\<bar>M\<bar> = 2 ^ 53")
    case True
    then have "of_int M = (of_int (sgn M) :: real) * 2 ^ 53"
      by (metis mult.commute mult_sgn_abs of_int_mult of_int_numeral of_int_power)
    then have "y = of_int (sgn M) * 2 powi (e + 1)"
      using two_powi_add[of 53 "e - 52"] by (simp add: y add.commute)
    moreover have "\<bar>sgn M\<bar> < 2 ^ 53" by (simp add: sgn_if)
    ultimately show ?thesis unfolding representable_def using e fin
      by (intro exI[of _ "sgn M"] exI[of _ "e + 1"]) simp
  next
    case False
    with M have "\<bar>M\<bar> < 2 ^ 53" by simp
    then show ?thesis unfolding representable_def using e fin y
      by (intro exI[of _ M] exI[of _ "e - 52"]) simp
  qed
qed

lemma round64_idem: "round64 x = Num y \<Longrightarrow> round64 y = Num y"
  by (rule round64_exact) (rule round64_representable)

lemma round64_binade:
  assumes "2 powi e \<le> \<bar>x\<bar>" and "\<bar>x\<bar> < 2 powi (e + 1)" and "- 1022 \<le> e"
  shows "round64 x =
     (let y = of_int (round_even (x / 2 powi (e - 52))) * 2 powi (e - 52)
      in if 2 ^ 1024 \<le> \<bar>y\<bar> then (if 0 < x then PosInf else NegInf) else Num y)"
proof -
  from assms(1) have "0 < \<bar>x\<bar>"
    using zero_less_power_int[of "2::real" e] by linarith
  then have "x \<noteq> 0" by simp
  moreover have "exponent x = e" using exponent_eq[OF assms(1,2)] assms(3) by simp
  ultimately show ?thesis by (simp add: round64_def Let_def)
qed

lemma round64_sign:
  shows "0 \<le> x \<Longrightarrow> round64 x = PosInf \<or> (\<exists>y. round64 x = Num y \<and> 0 \<le> y)"
    and "x \<le> 0 \<Longrightarrow> round64 x = NegInf \<or> (\<exists>y. round64 x = Num y \<and> y \<le> 0)"
proof -
  have pos: "0 < (2::real) powi (exponent x - 52)" by simp
  show "round64 x = PosInf \<or> (\<exists>y. round64 x = Num y \<and> 0 \<le> y)" if "0 \<le> x"
  proof -
    from that pos have "of_int 0 \<le> x / 2 powi (exponent x - 52)" by simp
    from round_even_ge[OF this] that pos show ?thesis
      by (auto simp: round64_def Let_def)
  qed
  show "round64 x = NegInf \<or> (\<exists>y. round64 x = Num y \<and> y \<le> 0)" if "x \<le> 0"
  proof -
    from that pos have "x / 2 powi (exponent x - 52) \<le> of_int 0" by (simp add: divide_nonpos_pos)
    from round_even_le[OF this] that pos show ?thesis
      by (auto simp: round64_def Let_def mult_le_0_iff)
  qed
qed

lemma round64_zero [simp]: "round64 0 = Num 0"
  by (simp add: round64_def)

lemma round64_numeral [simp]:
  "numeral k < (2::int) ^ 53 \<Longrightarrow> round64 (numeral k) = Num (numeral k)"
proof (rule round64_exact)
  assume k: "numeral k < (2::int) ^ 53"
  then have "(numeral k :: real) < 2 ^ 53"
    by (metis of_int_less_iff of_int_numeral of_int_power)
  also have "\<dots> < 2 ^ 1024" by simp
  finally have "(numeral k :: real) < 2 ^ 1024" .
  then show "representable (numeral k)"
    unfolding representable_def using k
    by (intro exI[of _ "numeral k"] exI[of _ 0]) simp
qed

lemma round64_one [simp]: "round64 1 = Num 1"
  using round64_binade[of 0 1] by (simp add: Let_def round_even_def)

lemma Frexp_binade:
  assumes "2 powi e \<le> \<bar>a\<bar>" and "\<bar>a\<bar> < 2 powi (e + 1)"
  shows "Frexp a = (Num (a / 2 powi (e + 1)), e + 1)"
proof -
  from assms(1) have "0 < \<bar>a\<bar>"
    using zero_less_power_int[of "2::real" e] by linarith
  from floor_log_eq_powr_iff[OF this, of 2 e] assms
  have "\<lfloor>log 2 \<bar>a\<bar>\<rfloor> = e" by (simp only: two_powr)
  then show ?thesis by (simp add: Frexp_def Let_def)
qed

section \<open>Panics and loops\<close>

lemma bindR_simps [simp]: "bindR (Inl e) f = Inl e" "bindR (Inr x) f = f x"
  by (simp_all add: bindR_def)

lemma bindR_eq_Inr: "bindR m f = Inr y \<longleftrightarrow> (\<exists>x. m = Inr x \<and> f x = Inr y)"
  by (cases m) simp_all

text \<open>A loop invariant indexed by the number of passes made.\<close>

lemma foldR_inv:
  assumes "I 0 s"
    and "\<And>k s. k < length xs \<Longrightarrow> I k s \<Longrightarrow> \<exists>s'. f (xs ! k) s = Inr s' \<and> I (Suc k) s'"
  shows "\<exists>s'. foldR f xs s = Inr s' \<and> I (length xs) s'"
  using assms
proof (induction xs arbitrary: I s)
  case Nil
  then show ?case by simp
next
  case (Cons x xs)
  from Cons.prems(2)[of 0 s] Cons.prems(1)
  obtain s1 where s1: "f x s = Inr s1" "I (Suc 0) s1" by auto
  have "\<exists>s'. foldR f xs s1 = Inr s' \<and> (\<lambda>k. I (Suc k)) (length xs) s'"
  proof (rule Cons.IH)
    show "I (Suc 0) s1" by (rule s1)
  next
    fix k s assume "k < length xs" "I (Suc k) s"
    with Cons.prems(2)[of "Suc k" s] show "\<exists>s'. f (xs ! k) s = Inr s' \<and> I (Suc (Suc k)) s'"
      by simp
  qed
  with s1 show ?case by simp
qed

lemma upto_nat_range: "[0 .. c - 1] = [0 .. int (nat c) - 1]"
  by (cases "0 \<le> c") simp_all

lemma foldR_range_inv:
  assumes "I 0 s"
    and "\<And>k s. k < n \<Longrightarrow> I k s \<Longrightarrow> \<exists>s'. f (int k) s = Inr s' \<and> I (Suc k) s'"
  shows "\<exists>s'. foldR f [0 .. int n - 1] s = Inr s' \<and> I n s'"
proof -
  have "\<exists>s'. foldR f [0 .. int n - 1] s = Inr s' \<and> I (length [0 .. int n - 1]) s'"
    by (rule foldR_inv) (use assms in \<open>simp_all add: nth_upto\<close>)
  then show ?thesis by simp
qed

lemma index_in [simp]: "i < length xs \<Longrightarrow> index xs (int i) = Inr (xs ! i)"
  by (simp add: index_def)

lemma store_in [simp]: "i < length xs \<Longrightarrow> store xs (int i) v = Inr (xs[i := v])"
  by (simp add: store_def)

lemma index2_in:
  "square n m \<Longrightarrow> i < n \<Longrightarrow> j < n \<Longrightarrow> index2 m (int i) (int j) = Inr (m ! i ! j)"
  by (simp add: index2_def square_def)

lemma store2_in:
  "square n m \<Longrightarrow> i < n \<Longrightarrow> j < n \<Longrightarrow>
     store2 m (int i) (int j) v = Inr (m[i := (m ! i)[j := v]])"
  by (simp add: store2_def square_def)

lemma square_update: "square n m \<Longrightarrow> i < n \<Longrightarrow> square n (m[i := (m ! i)[j := v]])"
  by (auto simp: square_def nth_list_update)

lemma square_replicate [simp]: "square n (replicate n (replicate n x))"
  by (simp add: square_def)

text \<open>Two nested loops over the whole matrix, each pass writing one entry computed from
  the indices and from the entry's old value.\<close>

lemma fill_matrix:
  assumes sq: "square n m0"
    and body: "\<And>i j m. i < n \<Longrightarrow> j < n \<Longrightarrow> square n m \<Longrightarrow> m ! i ! j = m0 ! i ! j \<Longrightarrow>
                 body (int i) (int j) m = store2 m (int i) (int j) (v i j)"
  shows "foldR (\<lambda>i m1. foldR (body i) [0 .. int n - 1] m1) [0 .. int n - 1] m0 =
           Inr (map (\<lambda>i. map (v i) [0 ..< n]) [0 ..< n])"
proof -
  define J where "J = (\<lambda>i k m. square n m \<and>
     (\<forall>a<n. \<forall>b<n. m ! a ! b = (if a < i \<or> (a = i \<and> b < k) then v a b else m0 ! a ! b)))"
  have inner: "\<exists>m'. foldR (body (int i)) [0 .. int n - 1] m = Inr m' \<and> J i n m'"
    if "i < n" "J i 0 m" for i m
  proof (rule foldR_range_inv[where I = "J i"])
    show "J i 0 m" by (rule that)
  next
    fix k m assume k: "k < n" and J: "J i k m"
    then have "body (int i) (int k) m = store2 m (int i) (int k) (v i k)"
      using that(1) by (intro body) (auto simp: J_def)
    also have "\<dots> = Inr (m[i := (m ! i)[k := v i k]])"
      using J k that(1) store2_in[of n m i k] by (simp add: J_def)
    finally have 1: "body (int i) (int k) m = Inr (m[i := (m ! i)[k := v i k]])" .
    have "J i (Suc k) (m[i := (m ! i)[k := v i k]])"
      using J k that(1) unfolding J_def
      by (auto simp: square_update nth_list_update square_def less_Suc_eq)
    with 1 show "\<exists>s'. body (int i) (int k) m = Inr s' \<and> J i (Suc k) s'" by simp
  qed
  have "\<exists>m'. foldR (\<lambda>i m1. foldR (body i) [0 .. int n - 1] m1) [0 .. int n - 1] m0 = Inr m'
          \<and> J n 0 m'"
  proof (rule foldR_range_inv[where I = "\<lambda>i. J i 0"])
    show "J 0 0 m0" using sq by (simp add: J_def)
  next
    fix i m assume i: "i < n" and J: "J i 0 m"
    from inner[OF this] obtain m'
      where m': "foldR (body (int i)) [0 .. int n - 1] m = Inr m'" "J i n m'"
      by blast
    have "J (Suc i) 0 m'" using m'(2) unfolding J_def by (auto simp: less_Suc_eq)
    with m' show "\<exists>s'. foldR (body (int i)) [0 .. int n - 1] m = Inr s' \<and> J (Suc i) 0 s'"
      by simp
  qed
  then obtain m'
    where m': "foldR (\<lambda>i m1. foldR (body i) [0 .. int n - 1] m1) [0 .. int n - 1] m0 = Inr m'"
      and J: "J n 0 m'" by blast
  have "m' = map (\<lambda>i. map (v i) [0 ..< n]) [0 ..< n]"
  proof (rule nth_equalityI)
    show "length m' = length (map (\<lambda>i. map (v i) [0 ..< n]) [0 ..< n])"
      using J by (simp add: J_def square_def)
  next
    fix a assume "a < length m'"
    then have a: "a < n" using J by (simp add: J_def square_def)
    show "m' ! a = map (\<lambda>i. map (v i) [0 ..< n]) [0 ..< n] ! a"
      using J a by (intro nth_equalityI) (auto simp: J_def square_def)
  qed
  with m' show ?thesis by simp
qed

section \<open>Construction of the engine\<close>

lemma generateDistanceMatrix_eq:
  assumes "square n (distances rd)" "numberOfCities rd = int n" "n \<le> length (tasks rd)"
  shows "generateDistanceMatrix rd =
     Inr (rd\<lparr>distances := map (\<lambda>i. map (\<lambda>j. if i = j then Num 0
                                              else Latency (Facets (tasks rd ! i))) [0 ..< n])
                             [0 ..< n]\<rparr>)"
proof -
  have "foldR (\<lambda>i m1. foldR (\<lambda>j m.
                    if i = j then store2 m i j (Num 0)
                    else bindR (index (tasks rd) i) (\<lambda>t. store2 m i j (Latency (Facets t))))
                  [0 .. int n - 1] m1) [0 .. int n - 1] (distances rd)
     = Inr (map (\<lambda>i. map (\<lambda>j. if i = j then Num 0 else Latency (Facets (tasks rd ! i))) [0 ..< n])
                             [0 ..< n])"
    by (rule fill_matrix[OF assms(1)]) (use assms(3) in auto)
  then show ?thesis by (simp add: generateDistanceMatrix_def assms(2))
qed

lemma clearTrails_eq:
  assumes "square n (pheromones rd)" "numberOfCities rd = int n"
  shows "clearTrails rd = Inr (rd\<lparr>pheromones := replicate n (replicate n (initialPheromone rd))\<rparr>)"
proof -
  have "foldR (\<lambda>i m1. foldR (\<lambda>j m. store2 m i j (initialPheromone rd)) [0 .. int n - 1] m1)
          [0 .. int n - 1] (pheromones rd)
     = Inr (map (\<lambda>i. map (\<lambda>j. initialPheromone rd) [0 ..< n]) [0 ..< n])"
    by (rule fill_matrix[OF assms(1)]) auto
  then show ?thesis by (simp add: clearTrails_def assms(2) map_replicate_const)
qed

lemma NewRouteDiscovery_eq:
  assumes "n = length (remdups (map TaskID ts))"
  shows "NewRouteDiscovery seed ts =
     Inr \<lparr>tasks = ts, pheromones = replicate n (replicate n (Num 1)),
          distances = map (\<lambda>i. map (\<lambda>j. if i = j then Num 0 else Latency (Facets (ts ! i)))
                              [0 ..< n]) [0 ..< n],
          alpha = Num 1, beta = Num 5, initialPheromone = Num 1,
          remainingFactor = Num (1 / 2), q = Num 500, randomFactor = Num (1 / 100),
          maxIterations = 1000, numberOfCities = int n, numberOfAnts = int n,
          antFactor = Num (4 / 5), ants = [], random = seed,
          probabilities = replicate n (Num 0),
          currentIndex = 0, bestTourOrder = NilTour, bestTourLength = Num 0\<rparr>"
proof -
  have le: "n \<le> length ts" unfolding assms using length_remdups_leq[of "map TaskID ts"] by simp
  show ?thesis
    unfolding NewRouteDiscovery_def Let_def getTotalCities_def
    apply (simp add: assms[symmetric])
    apply (subst generateDistanceMatrix_eq[of n])
       apply (simp_all add: le)
    apply (subst clearTrails_eq[of n])
    apply simp_all
    done
qed

section \<open>What each step leaves unchanged\<close>

lemma foldR_post:
  assumes "foldR f xs s = Inr s'" and "I 0 s"
    and "\<And>k s s'. k < length xs \<Longrightarrow> I k s \<Longrightarrow> f (xs ! k) s = Inr s' \<Longrightarrow> I (Suc k) s'"
  shows "I (length xs) s'"
  using assms
proof (induction xs arbitrary: I s)
  case Nil
  then show ?case by simp
next
  case (Cons x xs)
  from Cons.prems(1) obtain s1 where s1: "f x s = Inr s1" "foldR f xs s1 = Inr s'"
    by (auto split: sum.splits)
  have "(\<lambda>k. I (Suc k)) (length xs) s'"
  proof (rule Cons.IH[OF s1(2)])
    show "I (Suc 0) s1" using Cons.prems(3)[of 0 s s1] Cons.prems(2) s1(1) by simp
  next
    fix k s s' assume "k < length xs" "I (Suc k) s" "f (xs ! k) s = Inr s'"
    then show "I (Suc (Suc k)) s'" using Cons.prems(3)[of "Suc k" s s'] by simp
  qed
  then show ?case by simp
qed

lemma foldR_preserves:
  assumes "foldR f xs s = Inr s'" and "P s"
    and "\<And>x s s'. x \<in> set xs \<Longrightarrow> P s \<Longrightarrow> f x s = Inr s' \<Longrightarrow> P s'"
  shows "P s'"
  using foldR_post[where I = "\<lambda>_. P", OF assms(1,2)] assms(3) by (metis nth_mem)

lemma index_Inr: "index xs i = Inr x \<Longrightarrow> 0 \<le> i \<and> i < int (length xs) \<and> x = xs ! nat i"
  by (auto simp: index_def split: if_splits)

lemma store_Inr: "store xs i v = Inr ys \<Longrightarrow> 0 \<le> i \<and> i < int (length xs) \<and> ys = xs[nat i := v]"
  by (auto simp: store_def split: if_splits)

lemma visitCity_Inr:
  assumes "visitCity ant ci c = Inr ant'"
  shows "ant' = ant\<lparr>trail := (trail ant)[nat (ci + 1) := c], visited := (visited ant)[nat c := True]\<rparr>"
    and "0 \<le> ci + 1" and "ci + 1 < int (length (trail ant))"
    and "0 \<le> c" and "c < int (length (visited ant))"
  using assms by (auto simp: visitCity_def bindR_eq_Inr dest!: store_Inr)

lemma bare_visitCity: "visitCity ant ci c = Inr ant' \<Longrightarrow> bare ant' = bare ant"
  by (drule visitCity_Inr(1)) (simp add: bare_def)

lemma calculateProbabilities_frame:
  "calculateProbabilities rd ant = Inr rd' \<Longrightarrow> \<exists>ps. rd' = rd\<lparr>probabilities := ps\<rparr>"
  by (auto simp: calculateProbabilities_def bindR_eq_Inr)

lemma selectNextCity_Inr:
  assumes "selectNextCity rd ant = Inr (c, rd')"
  obtains g ps where "rd' = rd\<lparr>random := g, probabilities := ps\<rparr>"
proof -
  obtain t g1 where draw: "Intn (numberOfCities rd - currentIndex rd) (random rd) = Inr (t, g1)"
    using assms
    by (cases "Intn (numberOfCities rd - currentIndex rd) (random rd)")
      (auto simp: selectNextCity_def)
  define rd1 where "rd1 = rd\<lparr>random := snd (Float64 g1)\<rparr>"
  obtain picked where cont: "(case picked of
       Some i \<Rightarrow> Inr (i, rd1)
     | None \<Rightarrow>
         bindR (calculateProbabilities rd1 ant) (\<lambda>rd2.
         bindR (roulette (probabilities rd2) (fst (Float64 (random rd2))) (Num 0)
                  [0 .. numberOfCities rd2 - 1]) (\<lambda>i.
         Inr (i, rd2\<lparr>random := snd (Float64 (random rd2))\<rparr>)))) = Inr (c, rd')"
    using assms draw
    by (cases "if flt (fst (Float64 g1)) (randomFactor rd1)
               then random_pick t (visited ant) [0 .. numberOfCities rd1 - 1]
               else Inr None")
      (simp_all add: selectNextCity_def Float64_def Let_def rd1_def
        cong: if_cong option.case_cong)
  show thesis
  proof (cases picked)
    case (Some i)
    with cont have "rd' = rd1" by simp
    also have "rd1 = rd\<lparr>random := snd (Float64 g1), probabilities := probabilities rd\<rparr>"
      by (simp add: rd1_def)
    finally show thesis by (rule that)
  next
    case None
    with cont obtain rd2 where cp: "calculateProbabilities rd1 ant = Inr rd2"
      and rd': "rd' = rd2\<lparr>random := snd (Float64 (random rd2))\<rparr>"
      by (auto simp: bindR_eq_Inr)
    from calculateProbabilities_frame[OF cp] obtain ps where "rd2 = rd1\<lparr>probabilities := ps\<rparr>"
      by blast
    then have "rd' = rd\<lparr>random := snd (Float64 (snd (Float64 g1))), probabilities := ps\<rparr>"
      by (simp add: rd' rd1_def)
    then show thesis by (rule that)
  qed
qed

lemma selectNextCity_frame:
  assumes "selectNextCity rd ant = Inr (c, rd')"
  shows "outside_construction rd' = outside_construction rd" and "ants rd' = ants rd"
    and "currentIndex rd' = currentIndex rd"
proof -
  from assms obtain g ps where "rd' = rd\<lparr>random := g, probabilities := ps\<rparr>"
    by (rule selectNextCity_Inr)
  then show "outside_construction rd' = outside_construction rd" and "ants rd' = ants rd"
    and "currentIndex rd' = currentIndex rd"
    by (simp_all add: outside_construction_def)
qed

lemma outside_put_ant:
  "k < length (ants rd) \<Longrightarrow> bare ant = bare (ants rd ! k) \<Longrightarrow>
     outside_construction (put_ant rd k ant) = outside_construction rd"
  by (simp add: outside_construction_def put_ant_def map_update list_update_same_conv)

lemma moveAnts_step_frame:
  assumes "foldR (\<lambda>k rd.
              bindR (selectNextCity rd (ants rd ! k)) (\<lambda>(city, rd').
              bindR (visitCity (ants rd' ! k) (currentIndex rd') city) (\<lambda>ant'.
              Inr (put_ant rd' k ant'))))
            [0 ..< length (ants rd1)] rd1 = Inr rd2"
  shows "outside_construction rd2 = outside_construction rd1 \<and>
         currentIndex rd2 = currentIndex rd1 \<and> length (ants rd2) = length (ants rd1)"
proof (rule foldR_preserves[OF assms, where P = "\<lambda>rd. outside_construction rd = outside_construction rd1 \<and>
         currentIndex rd = currentIndex rd1 \<and> length (ants rd) = length (ants rd1)"])
  show "outside_construction rd1 = outside_construction rd1 \<and>
    currentIndex rd1 = currentIndex rd1 \<and> length (ants rd1) = length (ants rd1)" by simp
next
  fix k rd rd'
  assume k: "k \<in> set [0 ..< length (ants rd1)]"
    and P: "outside_construction rd = outside_construction rd1 \<and>
         currentIndex rd = currentIndex rd1 \<and> length (ants rd) = length (ants rd1)"
    and step: "bindR (selectNextCity rd (ants rd ! k)) (\<lambda>(city, rd').
              bindR (visitCity (ants rd' ! k) (currentIndex rd') city) (\<lambda>ant'.
              Inr (put_ant rd' k ant'))) = Inr rd'"
  from step obtain c ra ant' where sel: "selectNextCity rd (ants rd ! k) = Inr (c, ra)"
    and vis: "visitCity (ants ra ! k) (currentIndex ra) c = Inr ant'"
    and rd': "rd' = put_ant ra k ant'"
    by (auto simp: bindR_eq_Inr)
  note fr = selectNextCity_frame[OF sel]
  have kl: "k < length (ants ra)" using k P fr(2) by simp
  have "outside_construction rd' = outside_construction ra"
    unfolding rd' using kl bare_visitCity[OF vis] by (intro outside_put_ant) simp_all
  moreover have "currentIndex rd' = currentIndex ra" "length (ants rd') = length (ants ra)"
    by (simp_all add: rd' put_ant_def)
  ultimately show "outside_construction rd' = outside_construction rd1 \<and>
         currentIndex rd' = currentIndex rd1 \<and> length (ants rd') = length (ants rd1)"
    using fr P by simp
qed

lemma outside_fields [simp]:
  "tasks (outside_construction rd) = tasks rd"
  "pheromones (outside_construction rd) = pheromones rd"
  "distances (outside_construction rd) = distances rd"
  "alpha (outside_construction rd) = alpha rd"
  "beta (outside_construction rd) = beta rd"
  "initialPheromone (outside_construction rd) = initialPheromone rd"
  "remainingFactor (outside_construction rd) = remainingFactor rd"
  "q (outside_construction rd) = q rd"
  "randomFactor (outside_construction rd) = randomFactor rd"
  "maxIterations (outside_construction rd) = maxIterations rd"
  "numberOfCities (outside_construction rd) = numberOfCities rd"
  "numberOfAnts (outside_construction rd) = numberOfAnts rd"
  "bestTourOrder (outside_construction rd) = bestTourOrder rd"
  "bestTourLength (outside_construction rd) = bestTourLength rd"
  "ants (outside_construction rd) = map bare (ants rd)"
  by (simp_all add: outside_construction_def)

lemma bare_fields [simp]:
  "tourLength (bare a) = tourLength a"
  "trailLength (bare a) = trailLength a"
  "trailSize (bare a) = trailSize a"
  "facetsValues (bare a) = facetsValues a"
  by (simp_all add: bare_def)

lemma moveAnts_frame:
  assumes "moveAnts rd = Inr rd'"
  shows "outside_construction rd' = outside_construction rd"
    and "length (ants rd') = length (ants rd)"
    and "currentIndex rd' = max (currentIndex rd) (numberOfCities rd - 1)"
proof -
  let ?xs = "[currentIndex rd .. numberOfCities rd - 2]"
  let ?I = "\<lambda>k s. outside_construction s = outside_construction rd \<and>
      length (ants s) = length (ants rd) \<and> currentIndex s = currentIndex rd + int k"
  have "?I (length ?xs) rd'"
  proof (rule foldR_post[OF assms[unfolded moveAnts_def], where I = ?I])
    show "?I 0 rd" by simp
  next
    fix k s s'
    assume "k < length ?xs" and I: "?I k s"
      and step: "bindR (foldR (\<lambda>k rd.
                    bindR (selectNextCity rd (ants rd ! k)) (\<lambda>(city, rd').
                    bindR (visitCity (ants rd' ! k) (currentIndex rd') city) (\<lambda>ant'.
                    Inr (put_ant rd' k ant'))))
                  [0 ..< length (ants s)] s) (\<lambda>rd2.
         Inr (rd2\<lparr>currentIndex := currentIndex rd2 + 1\<rparr>)) = Inr s'"
    from step obtain s2 where s2: "foldR (\<lambda>k rd.
                    bindR (selectNextCity rd (ants rd ! k)) (\<lambda>(city, rd').
                    bindR (visitCity (ants rd' ! k) (currentIndex rd') city) (\<lambda>ant'.
                    Inr (put_ant rd' k ant'))))
                  [0 ..< length (ants s)] s = Inr s2"
      and s': "s' = s2\<lparr>currentIndex := currentIndex s2 + 1\<rparr>"
      by (auto simp: bindR_eq_Inr)
    note fr = moveAnts_step_frame[OF s2]
    have "outside_construction s' = outside_construction s2"
      by (simp add: s' outside_construction_def)
    then show "?I (Suc k) s'" using fr I by (simp add: s')
  qed
  then show "outside_construction rd' = outside_construction rd"
    and "length (ants rd') = length (ants rd)"
    and "currentIndex rd' = max (currentIndex rd) (numberOfCities rd - 1)"
    by auto
qed

lemma moveAnts_done: "numberOfCities rd - 1 \<le> currentIndex rd \<Longrightarrow> moveAnts rd = Inr rd"
  by (simp add: moveAnts_def)

lemma updateTrails_frame: "updateTrails rd = Inr rd' \<Longrightarrow> \<exists>m. rd' = rd\<lparr>pheromones := m\<rparr>"
  by (auto simp: updateTrails_def bindR_eq_Inr)

lemma clearTrails_frame: "clearTrails rd = Inr rd' \<Longrightarrow> \<exists>m. rd' = rd\<lparr>pheromones := m\<rparr>"
  by (auto simp: clearTrails_def bindR_eq_Inr)

lemma without_best_eq:
  assumes "without_best rd' = without_best rd"
  shows "rd' = rd\<lparr>bestTourOrder := bestTourOrder rd', bestTourLength := bestTourLength rd'\<rparr>"
proof -
  have "rd' = (without_best rd')\<lparr>bestTourOrder := bestTourOrder rd',
      bestTourLength := bestTourLength rd'\<rparr>"
    by (simp add: without_best_def)
  also have "\<dots> = (without_best rd)\<lparr>bestTourOrder := bestTourOrder rd',
      bestTourLength := bestTourLength rd'\<rparr>"
    by (simp only: assms)
  finally show ?thesis by (simp add: without_best_def)
qed

lemma updateBest_frame:
  assumes "updateBest rd = Inr rd'"
  shows "\<exists>t l. rd' = rd\<lparr>bestTourOrder := t, bestTourLength := l\<rparr>"
proof -
  from assms obtain rd1 where loop: "foldR (\<lambda>ant rd.
         if flt (tourLength ant) (bestTourLength rd) then
           Inr (rd\<lparr>bestTourLength := tourLength ant, bestTourOrder := Owned (trail ant)\<rparr>)
         else Inr rd) (ants rd1) rd1 = Inr rd'"
    and "(if bestTourOrder rd = NilTour then
              bindR (index (ants rd) 0) (\<lambda>ant.
              Inr (rd\<lparr>bestTourOrder := TrailOf 0, bestTourLength := tourLength ant\<rparr>))
            else Inr rd) = Inr rd1"
    unfolding updateBest_def bindR_eq_Inr by blast
  then have rd1: "without_best rd1 = without_best rd"
    by (auto simp: bindR_eq_Inr without_best_def split: if_splits)
  have "without_best rd' = without_best rd"
    by (rule foldR_preserves[OF loop, where P = "\<lambda>s. without_best s = without_best rd"])
      (use rd1 in \<open>auto simp: without_best_def split: if_splits\<close>)
  from without_best_eq[OF this] show ?thesis by blast
qed

lemma iteration_Inr:
  assumes "iteration rd = Inr rd'"
  obtains rd1 m t l where "moveAnts rd = Inr rd1" "updateTrails rd1 = Inr (rd1\<lparr>pheromones := m\<rparr>)"
    "updateBest (rd1\<lparr>pheromones := m\<rparr>) = Inr rd'"
    "rd' = rd1\<lparr>pheromones := m, bestTourOrder := t, bestTourLength := l\<rparr>"
proof -
  from assms obtain rd1 rd2 where 1: "moveAnts rd = Inr rd1" and 2: "updateTrails rd1 = Inr rd2"
    and 3: "updateBest rd2 = Inr rd'"
    by (auto simp: iteration_def bindR_eq_Inr)
  from updateTrails_frame[OF 2] obtain m where m: "rd2 = rd1\<lparr>pheromones := m\<rparr>" by blast
  from updateBest_frame[OF 3] obtain t l where "rd' = rd2\<lparr>bestTourOrder := t, bestTourLength := l\<rparr>"
    by blast
  with 1 2 3 m that show thesis by simp
qed

lemma iteration_construction:
  assumes "iteration rd = Inr rd'"
  shows "numberOfCities rd' = numberOfCities rd"
    and "currentIndex rd' = max (currentIndex rd) (numberOfCities rd - 1)"
    and "length (ants rd') = length (ants rd)"
proof -
  from assms obtain rd1 m t l where 1: "moveAnts rd = Inr rd1"
    and rd': "rd' = rd1\<lparr>pheromones := m, bestTourOrder := t, bestTourLength := l\<rparr>"
    by (rule iteration_Inr)
  note fr = moveAnts_frame[OF 1]
  have "numberOfCities rd1 = numberOfCities rd"
    using arg_cong[OF fr(1), of numberOfCities] by simp
  then show "numberOfCities rd' = numberOfCities rd"
    and "currentIndex rd' = max (currentIndex rd) (numberOfCities rd - 1)"
    and "length (ants rd') = length (ants rd)"
    using fr by (simp_all add: rd')
qed

lemma iteration_after_construction:
  assumes "iteration rd = Inr rd'" and "numberOfCities rd - 1 \<le> currentIndex rd"
  shows "ants rd' = ants rd" and "random rd' = random rd" and "currentIndex rd' = currentIndex rd"
    and "numberOfCities rd' = numberOfCities rd"
proof -
  from assms(1) obtain rd1 m t l where 1: "moveAnts rd = Inr rd1"
    and rd': "rd' = rd1\<lparr>pheromones := m, bestTourOrder := t, bestTourLength := l\<rparr>"
    by (rule iteration_Inr)
  from 1 moveAnts_done[OF assms(2)] have "rd1 = rd" by simp
  then show "ants rd' = ants rd" and "random rd' = random rd"
    and "currentIndex rd' = currentIndex rd" and "numberOfCities rd' = numberOfCities rd"
    by (simp_all add: rd')
qed


lemma drawn_city_range: "0 < n \<Longrightarrow> 0 \<le> drawn_city g n k \<and> drawn_city g n k < n"
proof -
  assume n: "0 < n"
  let ?u = "frac (tape g (pos g + k))"
  have u: "0 \<le> ?u" "?u < 1" by (simp_all add: frac_lt_1)
  have "0 \<le> ?u * of_int n" using u n by simp
  moreover have "?u * of_int n < of_int n" using u n by simp
  ultimately show ?thesis unfolding drawn_city_def by (simp add: floor_less_iff)
qed

lemma mapR_Inr:
  "mapR f xs = Inr ys \<Longrightarrow> length ys = length xs \<and> (\<forall>i<length xs. f (xs ! i) = Inr (ys ! i))"
proof (induction xs arbitrary: ys)
  case Nil
  then show ?case by simp
next
  case (Cons x xs)
  from Cons.prems obtain y ys' where y: "f x = Inr y" "mapR f xs = Inr ys'" "ys = y # ys'"
    by (auto split: sum.splits)
  from Cons.IH[OF y(2)] y show ?case by (auto simp: nth_Cons')
qed

lemma clear_newAnt: "clear (newAnt n fv) = Inr (newAnt n fv)"
proof -
  have "\<exists>a. foldR (\<lambda>i ant. bindR (store (visited ant) i False) (\<lambda>vs. Inr (ant\<lparr>visited := vs\<rparr>)))
         [0 .. int (nat n) - 1] (newAnt n fv) = Inr a \<and> a = newAnt n fv"
  proof (rule foldR_range_inv[where I = "\<lambda>k a. a = newAnt n fv"])
    show "newAnt n fv = newAnt n fv" ..
  next
    fix k s assume k: "k < nat n" and s: "s = newAnt n fv"
    have "(replicate (nat n) False)[k := False] = replicate (nat n) False"
      using k by (intro nth_equalityI) (simp_all add: nth_list_update)
    then show "\<exists>s'. bindR (store (visited s) (int k) False) (\<lambda>vs. Inr (s\<lparr>visited := vs\<rparr>)) = Inr s'
        \<and> s' = newAnt n fv"
      using k by (simp add: s newAnt_def)
  qed
  then show ?thesis
    unfolding clear_def by (subst upto_nat_range) (simp add: newAnt_def)
qed

lemma Intn_Inr:
  "Intn n g = Inr (c, g') \<Longrightarrow> 0 < n \<and> c = drawn_city g n 0 \<and> g' = g\<lparr>pos := Suc (pos g)\<rparr>"
  by (auto simp: Intn_def drawn_city_def split: if_splits)

lemma setupAnts_Inr:
  assumes "setupAnts rd = Inr rd1"
  shows "outside_setup rd1 = outside_setup rd"
    and "length (ants rd1) = nat (numberOfAnts rd)"
    and "currentIndex rd1 = 0"
    and "random rd1 = (random rd)\<lparr>pos := pos (random rd) + nat (numberOfAnts rd)\<rparr>"
    and "\<forall>k < nat (numberOfAnts rd).
           0 \<le> drawn_city (random rd) (numberOfCities rd) k \<and>
           drawn_city (random rd) (numberOfCities rd) k < numberOfCities rd \<and>
           ants rd1 ! k =
             (newAnt (numberOfCities rd) (Facets (tasks rd ! k)))
               \<lparr>trail := (replicate (nat (numberOfCities rd)) 0)
                           [0 := drawn_city (random rd) (numberOfCities rd) k],
                visited := (replicate (nat (numberOfCities rd)) False)
                           [nat (drawn_city (random rd) (numberOfCities rd) k) := True]\<rparr>"
proof -
  define n where "n = numberOfCities rd"
  define a where "a = nat (numberOfAnts rd)"
  define g where "g = random rd"
  define started where "started = (\<lambda>k. (newAnt n (Facets (tasks rd ! k)))
               \<lparr>trail := (replicate (nat n) 0)[0 := drawn_city g n k],
                visited := (replicate (nat n) False)[nat (drawn_city g n k) := True]\<rparr>)"
  define start where "start = rd\<lparr>ants := map (\<lambda>k. newAnt n (Facets (tasks rd ! k))) [0 ..< a],
       bestTourOrder := (case bestTourOrder rd of TrailOf k \<Rightarrow> Owned (trail (ants rd ! k)) | r \<Rightarrow> r)\<rparr>"
  from assms obtain new rd2 where new: "mapR (\<lambda>i. bindR (index (tasks rd) i) (\<lambda>t.
                    Inr (newAnt n (Facets t)))) [0 .. int a - 1] = Inr new"
    and loop: "foldR (\<lambda>k rd.
                bindR (clear (ants rd ! k)) (\<lambda>ant.
                bindR (Intn (numberOfCities rd) (random rd)) (\<lambda>(city, g).
                bindR (visitCity ant (- 1) city) (\<lambda>ant'.
                Inr (put_ant (rd\<lparr>random := g\<rparr>) k ant')))))
              [0 ..< length new]
              (rd\<lparr>ants := new,
                   bestTourOrder := (case bestTourOrder rd of
                                       TrailOf k \<Rightarrow> Owned (trail (ants rd ! k))
                                     | r \<Rightarrow> r)\<rparr>) = Inr rd2"
    and rd1: "rd1 = rd2\<lparr>currentIndex := 0\<rparr>"
    unfolding setupAnts_def bindR_eq_Inr n_def a_def
    by (subst (asm) upto_nat_range) blast
  from mapR_Inr[OF new] have len: "length new = a"
    and each: "\<forall>i<a. bindR (index (tasks rd) (int i)) (\<lambda>t. Inr (newAnt n (Facets t))) = Inr (new ! i)"
    by (simp_all add: nth_upto)
  have "new = map (\<lambda>k. newAnt n (Facets (tasks rd ! k))) [0 ..< a]"
  proof (rule nth_equalityI)
    show "length new = length (map (\<lambda>k. newAnt n (Facets (tasks rd ! k))) [0 ..< a])"
      by (simp add: len)
  next
    fix i assume "i < length new"
    then have i: "i < a" by (simp add: len)
    with each show "new ! i = map (\<lambda>k. newAnt n (Facets (tasks rd ! k))) [0 ..< a] ! i"
      by (auto simp: bindR_eq_Inr dest!: index_Inr)
  qed
  note new_eq = this
  let ?I = "\<lambda>k s. outside_setup s = outside_setup rd \<and> length (ants s) = a \<and>
      random s = g\<lparr>pos := pos g + k\<rparr> \<and> (k = 0 \<or> 0 < n) \<and>
      (\<forall>j<a. ants s ! j = (if j < k then started j else newAnt n (Facets (tasks rd ! j))))"
  have "?I (length [0 ..< length new]) rd2"
  proof (rule foldR_post[OF loop, where I = ?I])
    show "?I 0 (rd\<lparr>ants := new,
                   bestTourOrder := (case bestTourOrder rd of
                                       TrailOf k \<Rightarrow> Owned (trail (ants rd ! k))
                                     | r \<Rightarrow> r)\<rparr>)"
      by (simp add: outside_setup_def len g_def) (simp add: new_eq)
  next
    fix k s s'
    assume k: "k < length [0 ..< length new]" and I: "?I k s"
      and step: "bindR (clear (ants s ! ([0 ..< length new] ! k))) (\<lambda>ant.
                bindR (Intn (numberOfCities s) (random s)) (\<lambda>(city, g).
                bindR (visitCity ant (- 1) city) (\<lambda>ant'.
                Inr (put_ant (s\<lparr>random := g\<rparr>) ([0 ..< length new] ! k) ant')))) = Inr s'"
    from k have ka: "k < a" by (simp add: len)
    have nk: "[0 ..< length new] ! k = k" using k by simp
    have "numberOfCities (outside_setup s) = numberOfCities (outside_setup rd)"
      using I by simp
    then have ns: "numberOfCities s = n"
      by (simp add: outside_setup_def n_def)
    have antk: "ants s ! k = newAnt n (Facets (tasks rd ! k))" using I ka by simp
    from step obtain c g' ant' where
      draw: "Intn n (random s) = Inr (c, g')" and
      vis: "visitCity (newAnt n (Facets (tasks rd ! k))) (- 1) c = Inr ant'" and
      s': "s' = put_ant (s\<lparr>random := g'\<rparr>) k ant'"
      unfolding nk antk clear_newAnt ns by (auto simp: bindR_eq_Inr)
    from Intn_Inr[OF draw] I have n: "0 < n" and c: "c = drawn_city g n k"
      and g': "g' = g\<lparr>pos := pos g + Suc k\<rparr>"
      by (simp_all add: drawn_city_def)
    from visitCity_Inr(1)[OF vis] have ant': "ant' = started k"
      by (simp add: started_def c newAnt_def)
    have "outside_setup s' = outside_setup s"
      by (simp add: s' put_ant_def outside_setup_def)
    moreover have "\<forall>j<a. ants s' ! j = (if j < Suc k then started j else newAnt n (Facets (tasks rd ! j)))"
      using I ka by (auto simp: s' put_ant_def nth_list_update ant' less_Suc_eq)
    ultimately show "?I (Suc k) s'"
      using I n g' by (simp add: s' put_ant_def)
  qed
  then have fin: "outside_setup rd2 = outside_setup rd" "length (ants rd2) = a"
    "random rd2 = g\<lparr>pos := pos g + a\<rparr>" "a = 0 \<or> 0 < n" "\<forall>j<a. ants rd2 ! j = started j"
    by (simp_all add: len)
  show "outside_setup rd1 = outside_setup rd"
    using fin(1) by (simp add: rd1 outside_setup_def)
  show "length (ants rd1) = nat (numberOfAnts rd)" using fin(2) by (simp add: rd1 a_def)
  show "currentIndex rd1 = 0" by (simp add: rd1)
  show "random rd1 = (random rd)\<lparr>pos := pos (random rd) + nat (numberOfAnts rd)\<rparr>"
    using fin(3) by (simp add: rd1 a_def g_def)
  show "\<forall>k < nat (numberOfAnts rd).
           0 \<le> drawn_city (random rd) (numberOfCities rd) k \<and>
           drawn_city (random rd) (numberOfCities rd) k < numberOfCities rd \<and>
           ants rd1 ! k =
             (newAnt (numberOfCities rd) (Facets (tasks rd ! k)))
               \<lparr>trail := (replicate (nat (numberOfCities rd)) 0)
                           [0 := drawn_city (random rd) (numberOfCities rd) k],
                visited := (replicate (nat (numberOfCities rd)) False)
                           [nat (drawn_city (random rd) (numberOfCities rd) k) := True]\<rparr>"
  proof (intro allI impI)
    fix k assume "k < nat (numberOfAnts rd)"
    then have ka: "k < a" by (simp add: a_def)
    with fin(4) have "0 < n" by auto
    from drawn_city_range[OF this, of g k] fin(5) ka
    show "0 \<le> drawn_city (random rd) (numberOfCities rd) k \<and>
           drawn_city (random rd) (numberOfCities rd) k < numberOfCities rd \<and>
           ants rd1 ! k =
             (newAnt (numberOfCities rd) (Facets (tasks rd ! k)))
               \<lparr>trail := (replicate (nat (numberOfCities rd)) 0)
                           [0 := drawn_city (random rd) (numberOfCities rd) k],
                visited := (replicate (nat (numberOfCities rd)) False)
                           [nat (drawn_city (random rd) (numberOfCities rd) k) := True]\<rparr>"
      by (simp add: rd1 started_def n_def g_def)
  qed
qed

text \<open>Definitions to unfold when a concrete engine is evaluated.\<close>

lemmas run_defs = NewRouteDiscovery_def generateDistanceMatrix_def clearTrails_def
  getTotalCities_def Let_def store2_def store_def index_def index2_def upto.simps
  example_task_def

section \<open>The cost matrix\<close>

text \<open>
  Claim C2, as the specification states it: after initialization the entry cost[i][j],
  for distinct i and j, is the latency of the destination task j.  It fails: for two
  tasks of latencies 10 and 1, the entry cost[0][1] is 10, the latency of task 0, while
  task 1 has latency 1.
\<close>

theorem cost_is_destination_latency_counterexample:
  "bindR (NewRouteDiscovery (rng_of []) [example_task 100 10 1, example_task 200 1 1])
     (\<lambda>rd. index2 (distances rd) 0 1) = Inr (Num 10)
   \<and> Latency (Facets ([example_task 100 10 1, example_task 200 1 1] ! 1)) = Num 1"
  by (simp add: run_defs)

text \<open>
  Claim C2, amended: after initialization, for all city indices i and j, the entry
  cost[i][j] is the latency of the source task, the i-th task of the list, when i and j
  differ, and zero on the diagonal.
\<close>

theorem cost_is_source_latency:
  assumes "NewRouteDiscovery seed ts = Inr rd"
    and "i < nat (numberOfCities rd)" and "j < nat (numberOfCities rd)"
  shows "index2 (distances rd) (int i) (int j) =
           Inr (if i = j then Num 0 else Latency (Facets (tasks rd ! i)))"
proof -
  define n where "n = length (remdups (map TaskID ts))"
  note eq = NewRouteDiscovery_eq[OF n_def, of seed]
  from assms(1) have rd: "numberOfCities rd = int n" "tasks rd = ts"
    "distances rd = map (\<lambda>i. map (\<lambda>j. if i = j then Num 0 else Latency (Facets (ts ! i)))
                              [0 ..< n]) [0 ..< n]"
    unfolding eq by auto
  have "square n (distances rd)" by (simp add: rd square_def)
  then show ?thesis using assms(2,3) rd(1)
    by (simp add: index2_in[of n]) (simp add: rd)
qed

theorem cost_is_source_latency_witness:
  "0 < nat (numberOfCities (projr (NewRouteDiscovery (rng_of [])
        [example_task 100 10 1, example_task 200 1 1])))
   \<and> index2 (distances (projr (NewRouteDiscovery (rng_of [])
        [example_task 100 10 1, example_task 200 1 1]))) (int 0) (int 1) = Inr (Num 10)"
proof -
  let ?ts = "[example_task 100 10 1, example_task 200 1 1]"
  let ?rd = "projr (NewRouteDiscovery (rng_of []) ?ts)"
  have run: "NewRouteDiscovery (rng_of []) ?ts = Inr ?rd"
    by (simp add: run_defs)
  have n: "numberOfCities ?rd = 2" by (simp add: run_defs)
  have "index2 (distances ?rd) (int 0) (int 1) =
          Inr (if (0::nat) = 1 then Num 0 else Latency (Facets (tasks ?rd ! 0)))"
    by (rule cost_is_source_latency[OF run]) (simp_all add: n)
  moreover have "Latency (Facets (tasks ?rd ! 0)) = Num 10" by (simp add: run_defs)
  ultimately show ?thesis using n by simp
qed

section \<open>The empty task list\<close>

text \<open>
  Claim C4, as the specification states it: \<^verbatim>\<open>NewRouteDiscovery\<close> on an empty task list
  fails and constructs no engine.  It fails: the call returns an engine, of zero cities.
\<close>

theorem empty_task_list_counterexample:
  "\<not> isl (NewRouteDiscovery (rng_of []) [])
   \<and> map_sum id numberOfCities (NewRouteDiscovery (rng_of []) []) = Inr 0"
  by (simp add: run_defs)

text \<open>
  Claim C4, amended: \<^verbatim>\<open>NewRouteDiscovery\<close> on an empty task list does not fail; it
  constructs the engine with zero cities, zero ants, empty cost and pheromone matrices,
  the default parameters and no best tour.
\<close>

theorem empty_task_list_constructs:
  "NewRouteDiscovery seed [] =
     Inr \<lparr>tasks = [], pheromones = [], distances = [],
          alpha = Num 1, beta = Num 5, initialPheromone = Num 1,
          remainingFactor = Num (1 / 2), q = Num 500, randomFactor = Num (1 / 100),
          maxIterations = 1000, numberOfCities = 0, numberOfAnts = 0,
          antFactor = Num (4 / 5), ants = [], random = seed, probabilities = [],
          currentIndex = 0, bestTourOrder = NilTour, bestTourLength = Num 0\<rparr>"
  by (simp add: run_defs)

section \<open>The priority map\<close>

text \<open>
  Claim C5, as the specification states it: \<^verbatim>\<open>getPriorityMap\<close>, called before an
  iteration has finished, fails instead of returning a map.  It fails: on the engine
  just constructed the call returns the empty map.
\<close>

theorem priority_map_not_ready_counterexample:
  "map_sum id getPriorityMap
     (NewRouteDiscovery (rng_of []) [example_task 100 10 1, example_task 200 1 1])
   = Inr Map.empty"
  by (simp add: run_defs getPriorityMap_def tour_slice_def)

text \<open>
  Claim C5, amended: \<^verbatim>\<open>getPriorityMap\<close>, called while no best tour is recorded
  (\<^verbatim>\<open>bestTourOrder\<close> is nil, as it is on every engine just constructed), does not fail; it
  returns the empty map.
\<close>

theorem priority_map_before_first_iteration:
  "getPriorityMap (rd\<lparr>bestTourOrder := NilTour\<rparr>) = Map.empty
   \<and> map_sum id getPriorityMap (NewRouteDiscovery seed ts) = Inr Map.empty"
  by (simp add: NewRouteDiscovery_eq[OF refl] getPriorityMap_def tour_slice_def)

section \<open>Runs on concrete tasks\<close>

text \<open>Rounding at a number whose binade is listed.\<close>

lemmas round64_eval =
  round64_binade[of "- 17"] round64_binade[of "- 12"] round64_binade[of "- 4"]
  round64_binade[of "- 3"]
  round64_binade[of "- 2"] round64_binade[of "- 1"] round64_binade[of 0]
  round_even_def power_divide

text \<open>The power of a number whose binade is listed.\<close>

lemmas Pow_eval = Pow_def pow_finite_def pow_loop.simps Ldexp_def
  Frexp_binade[of "- 4"] Frexp_binade[of "- 3"]

lemma replicate_numeral: "replicate (numeral k) x = x # replicate (pred_numeral k) x"
  by (simp add: numeral_eq_Suc)

lemmas ant_defs = prepared_def setupAnts_def newAnt_def clear_def visitCity_def Intn_def
  Float64_def rng_of_def put_ant_def moveAnts_def selectNextCity_def
  calculateProbabilities_def desirability_def Pow_eval fge_def updateTrails_def
  add_pheromone_def updateBest_def iteration_def calculateTourLength_def replicate_numeral
  round64_eval

text \<open>
  Claim C1: when the trails are complete, and before the trail update and the best update
  read it, every ant's \<^verbatim>\<open>tourLength\<close> is the cost of its closed tour.  The code defines
  \<^verbatim>\<open>calculateTourLength\<close> and never calls it.  For the tasks of latencies 10 and 1 and
  a random source that sends the first ant from city 1 to city 0 and the second from
  city 0 to city 1, the trails are complete after \<^verbatim>\<open>moveAnts\<close> and both ants have
  \<^verbatim>\<open>tourLength\<close> 0, where \<^verbatim>\<open>calculateTourLength\<close> would set 11; the iteration then
  reinforces with 500 / 0, leaves infinite pheromone on the edges of the tours, and
  records 0 as the cost of the best tour.
\<close>

theorem tour_length_is_never_computed:
  "map_sum id (\<lambda>rd. (map trail (ants rd), map tourLength (ants rd),
                     map (\<lambda>a. map_sum id tourLength (calculateTourLength a (distances rd)))
                       (ants rd)))
     (bindR (prepared (rng_of [1 / 2, 0, 0, 1 / 2, 1 / 2, 0, 1 / 2, 1 / 2])
               [example_task 100 10 1, example_task 200 1 1]) moveAnts)
   = Inr ([[1, 0], [0, 1]], [Num 0, Num 0], [Inr (Num 11), Inr (Num 11)])
   \<and> map_sum id (\<lambda>rd. (pheromones rd, bestTourLength rd))
     (bindR (prepared (rng_of [1 / 2, 0, 0, 1 / 2, 1 / 2, 0, 1 / 2, 1 / 2])
               [example_task 100 10 1, example_task 200 1 1]) iteration)
   = Inr ([[Num (1 / 2), PosInf], [PosInf, Num (1 / 2)]], Num 0)"
  by (simp add: run_defs ant_defs)

text \<open>
  Claim C6: the trail of an ant that has completed its construction is a permutation of
  the city indices.  The code gives a visited city the probability zero, and the wheel
  returns the first city whose cumulative probability is at least the draw: when the
  draw is 0.0 and city 0 is visited, that is city 0.  For two tasks and a random source
  whose fifth variate (the first ant's draw at the wheel) is 0.0, the first ant starts on
  city 0, moves to city 0 again, and completes the trail 0, 0 with city 1 unvisited.
\<close>

theorem completed_trail_repeats_city:
  "map_sum id (\<lambda>rd. (currentIndex rd, trail (ants rd ! 0), visited (ants rd ! 0)))
     (bindR (prepared (rng_of [0, 1 / 2, 1 / 2, 1 / 2, 0, 1 / 2, 1 / 2, 1 / 2])
               [example_task 100 10 1, example_task 200 1 1]) moveAnts)
   = Inr (1, [0, 0], [True, False])"
  by (simp add: run_defs ant_defs)

subsection \<open>The keys of the priority map\<close>

text \<open>For a tour without repetition the map has the cities of the tour as its keys, and
  sends the k-th of them (from 0) to the rank k + 1.\<close>

lemma fold_ranks:
  assumes "f = (\<lambda>taskID (priorityMap, priority).
                  (priorityMap(taskID \<mapsto> priority), priority + (1::int)))"
    and "fold f xs (m, p) = (m', p')"
  shows "p' = p + int (length xs) \<and> dom m' = dom m \<union> set xs \<and>
         (distinct xs \<longrightarrow> (\<forall>k<length xs. m' (xs ! k) = Some (p + int k))) \<and>
         (\<forall>c. c \<notin> set xs \<longrightarrow> m' c = m c)"
  using assms(2)
proof (induction xs arbitrary: m p)
  case Nil
  then show ?case by simp
next
  case (Cons x xs)
  have "f x (m, p) = (m(x \<mapsto> p), p + 1)" by (simp only: assms(1) prod.case)
  with Cons.prems have step: "fold f xs (m(x \<mapsto> p), p + 1) = (m', p')"
    by (simp only: fold_simps comp_apply)
  note IH = Cons.IH[OF step]
  have "distinct (x # xs) \<longrightarrow> (\<forall>k<length (x # xs). m' ((x # xs) ! k) = Some (p + int k))"
  proof (intro impI allI)
    fix k assume d: "distinct (x # xs)" and k: "k < length (x # xs)"
    show "m' ((x # xs) ! k) = Some (p + int k)"
    proof (cases k)
      case 0
      with d IH show ?thesis by simp
    next
      case (Suc j)
      with d k IH show ?thesis by simp
    qed
  qed
  moreover have "p' = p + int (length (x # xs))" using IH by simp
  moreover have "dom m' = dom m \<union> set (x # xs)"
  proof -
    from IH have "dom m' = dom (m(x \<mapsto> p)) \<union> set xs" by blast
    then show ?thesis by simp
  qed
  moreover have "\<forall>c. c \<notin> set (x # xs) \<longrightarrow> m' c = m c"
  proof (intro allI impI)
    fix c assume c: "c \<notin> set (x # xs)"
    with IH have "m' c = (m(x \<mapsto> p)) c" by simp
    with c show "m' c = m c" by simp
  qed
  ultimately show ?case by blast
qed

lemma priority_map_ranks:
  assumes "distinct (tour_slice rd)"
  shows "dom (getPriorityMap rd) = set (tour_slice rd)"
    and "\<forall>k<length (tour_slice rd). getPriorityMap rd (tour_slice rd ! k) = Some (int k + 1)"
proof -
  define f where "f = (\<lambda>taskID (priorityMap :: int \<rightharpoonup> int, priority).
                  (priorityMap(taskID \<mapsto> priority), priority + (1::int)))"
  have g: "getPriorityMap rd = fst (fold f (tour_slice rd) (Map.empty, 1))"
    by (simp only: getPriorityMap_def f_def)
  have "fold f (tour_slice rd) (Map.empty, 1) =
      (getPriorityMap rd, snd (fold f (tour_slice rd) (Map.empty, 1)))"
    by (simp only: g prod.collapse)
  from fold_ranks[OF f_def this] assms
  show "dom (getPriorityMap rd) = set (tour_slice rd)"
    and "\<forall>k<length (tour_slice rd). getPriorityMap rd (tour_slice rd ! k) = Some (int k + 1)"
    by (simp_all add: add.commute)
qed

text \<open>
  Claim C9: the priority map of a best tour of N cities sends task identifiers to ranks:
  N entries, the ranks 1 to N, rank 1 for the identifier of the first city of the tour.
  In the code the keys are the entries of the best tour, which are city indices, though
  the loop calls them \<^verbatim>\<open>taskID\<close>.  For the tasks of identifiers 100 and 200, after an
  iteration whose best tour visits the second task first, the map has the keys 1 and 0,
  with the ranks 1 and 2, and no entry for 200 or for 100.
\<close>

theorem priority_map_keys_are_city_indices:
  "map_sum id (\<lambda>rd. (map TaskID (tasks rd), tour_slice rd,
                     getPriorityMap rd 1, getPriorityMap rd 0,
                     getPriorityMap rd 200, getPriorityMap rd 100))
     (bindR (prepared (rng_of [1 / 2, 0, 0, 1 / 2, 1 / 2, 0, 1 / 2, 1 / 2])
               [example_task 100 10 1, example_task 200 1 1]) iteration)
   = Inr ([100, 200], [1, 0], Some 1, Some 2, None, None)"
  by (simp add: run_defs ant_defs getPriorityMap_def tour_slice_def)

section \<open>The best tour\<close>

lemma flt_irrefl [simp]: "\<not> flt x x"
  by (cases x) simp_all

lemma flt_trans: "flt x y \<Longrightarrow> flt y z \<Longrightarrow> flt x z"
  by (cases x; cases y; cases z) simp_all

lemma flt_asym: "flt x y \<Longrightarrow> \<not> flt y x"
  using flt_trans[of x y x] by auto

text \<open>The loop of \<^verbatim>\<open>updateBest\<close>.\<close>

lemma best_loop:
  assumes "foldR (\<lambda>ant rd.
         if flt (tourLength ant) (bestTourLength rd) then
           Inr (rd\<lparr>bestTourLength := tourLength ant, bestTourOrder := Owned (trail ant)\<rparr>)
         else Inr rd) xs s = Inr s'"
  shows "(bestTourOrder s' = bestTourOrder s \<and> bestTourLength s' = bestTourLength s
          \<or> (\<exists>ant\<in>set xs. flt (tourLength ant) (bestTourLength s)
                \<and> bestTourLength s' = tourLength ant \<and> bestTourOrder s' = Owned (trail ant)))
       \<and> (\<forall>ant\<in>set xs. \<not> flt (tourLength ant) (bestTourLength s'))
       \<and> ants s' = ants s"
  using assms
proof (induction xs arbitrary: s)
  case Nil
  then show ?case by simp
next
  case (Cons x xs)
  define s1 where "s1 = (if flt (tourLength x) (bestTourLength s)
     then s\<lparr>bestTourLength := tourLength x, bestTourOrder := Owned (trail x)\<rparr> else s)"
  from Cons.prems have loop: "foldR (\<lambda>ant rd.
         if flt (tourLength ant) (bestTourLength rd) then
           Inr (rd\<lparr>bestTourLength := tourLength ant, bestTourOrder := Owned (trail ant)\<rparr>)
         else Inr rd) xs s1 = Inr s'"
    by (simp add: s1_def split: if_splits)
  note IH = Cons.IH[OF loop]
  have down: "bestTourLength s' = bestTourLength s1 \<or> flt (bestTourLength s') (bestTourLength s1)"
    using IH by auto
  have x_s1: "\<not> flt (tourLength x) (bestTourLength s1)" by (simp add: s1_def)
  have x_ok: "\<not> flt (tourLength x) (bestTourLength s')"
    using down x_s1 flt_trans by metis
  show ?case
  proof (cases "flt (tourLength x) (bestTourLength s)")
    case True
    then have s1: "bestTourLength s1 = tourLength x" "bestTourOrder s1 = Owned (trail x)"
      "ants s1 = ants s"
      by (simp_all add: s1_def)
    from IH have "bestTourOrder s' = Owned (trail x) \<and> bestTourLength s' = tourLength x
        \<or> (\<exists>ant\<in>set xs. flt (tourLength ant) (tourLength x)
              \<and> bestTourLength s' = tourLength ant \<and> bestTourOrder s' = Owned (trail ant))"
      by (simp add: s1)
    then have "\<exists>ant\<in>set (x # xs). flt (tourLength ant) (bestTourLength s)
                \<and> bestTourLength s' = tourLength ant \<and> bestTourOrder s' = Owned (trail ant)"
    proof
      assume "bestTourOrder s' = Owned (trail x) \<and> bestTourLength s' = tourLength x"
      with True show ?thesis by simp
    next
      assume "\<exists>ant\<in>set xs. flt (tourLength ant) (tourLength x)
              \<and> bestTourLength s' = tourLength ant \<and> bestTourOrder s' = Owned (trail ant)"
      then obtain ant where ant: "ant \<in> set xs" "flt (tourLength ant) (tourLength x)"
        "bestTourLength s' = tourLength ant" "bestTourOrder s' = Owned (trail ant)"
        by blast
      from flt_trans[OF ant(2) True] ant show ?thesis by auto
    qed
    moreover have "\<forall>ant\<in>set (x # xs). \<not> flt (tourLength ant) (bestTourLength s')"
      using IH x_ok by simp
    moreover have "ants s' = ants s" using IH s1 by simp
    ultimately show ?thesis by blast
  next
    case False
    then have "s1 = s" by (simp add: s1_def)
    with IH x_ok show ?thesis by auto
  qed
qed

lemma same_or_less_trans: "same_or_less x y \<Longrightarrow> same_or_less y z \<Longrightarrow> same_or_less x z"
  unfolding same_or_less_def using flt_trans by blast

lemma same_or_less_not_above: "same_or_less x y \<Longrightarrow> \<not> flt y x"
  unfolding same_or_less_def using flt_asym by auto

lemma updateBest_recorded:
  assumes "bestTourOrder rd \<noteq> NilTour" and "updateBest rd = Inr rd'"
  shows "bestTourOrder rd' = bestTourOrder rd \<and> bestTourLength rd' = bestTourLength rd
          \<or> (\<exists>ant\<in>set (ants rd). flt (tourLength ant) (bestTourLength rd)
                \<and> bestTourLength rd' = tourLength ant \<and> bestTourOrder rd' = Owned (trail ant))"
    and "\<forall>ant\<in>set (ants rd). \<not> flt (tourLength ant) (bestTourLength rd')"
    and "ants rd' = ants rd"
  using best_loop[of "ants rd" rd rd'] assms by (simp_all add: updateBest_def)

text \<open>The first recording: with no best tour recorded, \<^verbatim>\<open>updateBest\<close> takes the slice of
  the first ant's trail, not a copy of it, and that ant's \<^verbatim>\<open>tourLength\<close>, before it
  compares the ants.\<close>

lemma updateBest_first:
  assumes "bestTourOrder rd = NilTour" and "updateBest rd = Inr rd'"
  shows "ants rd \<noteq> []"
    and "bestTourOrder rd' = TrailOf 0 \<and> bestTourLength rd' = tourLength (ants rd ! 0)
          \<or> (\<exists>ant\<in>set (ants rd). flt (tourLength ant) (tourLength (ants rd ! 0))
                \<and> bestTourLength rd' = tourLength ant \<and> bestTourOrder rd' = Owned (trail ant))"
    and "\<forall>ant\<in>set (ants rd). \<not> flt (tourLength ant) (bestTourLength rd')"
proof -
  from assms obtain a where a: "index (ants rd) 0 = Inr a"
    and loop: "foldR (\<lambda>ant rd.
         if flt (tourLength ant) (bestTourLength rd) then
           Inr (rd\<lparr>bestTourLength := tourLength ant, bestTourOrder := Owned (trail ant)\<rparr>)
         else Inr rd) (ants rd) (rd\<lparr>bestTourOrder := TrailOf 0, bestTourLength := tourLength a\<rparr>)
       = Inr rd'"
    by (auto simp: updateBest_def bindR_eq_Inr)
  from index_Inr[OF a] have ne: "ants rd \<noteq> []" and a0: "a = ants rd ! 0" by auto
  show "ants rd \<noteq> []" by (rule ne)
  from best_loop[OF loop]
  show "bestTourOrder rd' = TrailOf 0 \<and> bestTourLength rd' = tourLength (ants rd ! 0)
          \<or> (\<exists>ant\<in>set (ants rd). flt (tourLength ant) (tourLength (ants rd ! 0))
                \<and> bestTourLength rd' = tourLength ant \<and> bestTourOrder rd' = Owned (trail ant))"
    and "\<forall>ant\<in>set (ants rd). \<not> flt (tourLength ant) (bestTourLength rd')"
    by (simp_all add: a0)
qed

lemma iteration_best:
  assumes "bestTourOrder rd \<noteq> NilTour" and "iteration rd = Inr rd'"
  shows "bestTourOrder rd' = bestTourOrder rd \<and> bestTourLength rd' = bestTourLength rd
          \<or> (\<exists>ant\<in>set (ants rd'). flt (tourLength ant) (bestTourLength rd)
                \<and> bestTourLength rd' = tourLength ant \<and> bestTourOrder rd' = Owned (trail ant))"
    and "\<forall>ant\<in>set (ants rd'). \<not> flt (tourLength ant) (bestTourLength rd')"
proof -
  from assms(2) obtain rd1 m t l where mv: "moveAnts rd = Inr rd1"
    and ub: "updateBest (rd1\<lparr>pheromones := m\<rparr>) = Inr rd'"
    by (rule iteration_Inr)
  have "bestTourOrder (outside_construction rd1) = bestTourOrder (outside_construction rd)"
    "bestTourLength (outside_construction rd1) = bestTourLength (outside_construction rd)"
    by (simp_all only: moveAnts_frame(1)[OF mv])
  then have same: "bestTourOrder rd1 = bestTourOrder rd" "bestTourLength rd1 = bestTourLength rd"
    by simp_all
  have "bestTourOrder (rd1\<lparr>pheromones := m\<rparr>) \<noteq> NilTour" using assms(1) same by simp
  note u = updateBest_recorded[OF this ub]
  from u(3) have ants: "ants rd' = ants rd1" by simp
  from u(1) show "bestTourOrder rd' = bestTourOrder rd \<and> bestTourLength rd' = bestTourLength rd
          \<or> (\<exists>ant\<in>set (ants rd'). flt (tourLength ant) (bestTourLength rd)
                \<and> bestTourLength rd' = tourLength ant \<and> bestTourOrder rd' = Owned (trail ant))"
    by (simp add: same ants)
  from u(2) show "\<forall>ant\<in>set (ants rd'). \<not> flt (tourLength ant) (bestTourLength rd')"
    by (simp add: ants)
qed

lemma iteration_best_down:
  assumes "bestTourOrder rd \<noteq> NilTour" and "iteration rd = Inr rd'"
  shows "bestTourOrder rd' \<noteq> NilTour \<and> same_or_less (bestTourLength rd') (bestTourLength rd)"
  using iteration_best(1)[OF assms] assms(1) by (auto simp: same_or_less_def)

lemma iterations_best_down:
  assumes "bestTourOrder rd \<noteq> NilTour" and "iterations k rd = Inr rd'"
  shows "bestTourOrder rd' \<noteq> NilTour \<and> same_or_less (bestTourLength rd') (bestTourLength rd)"
  using assms
proof (induction k arbitrary: rd)
  case 0
  then show ?case by (simp add: same_or_less_def)
next
  case (Suc k)
  from Suc.prems(2) obtain rd1 where 1: "iteration rd = Inr rd1" and 2: "iterations k rd1 = Inr rd'"
    by (auto simp: bindR_eq_Inr)
  from iteration_best_down[OF Suc.prems(1) 1] Suc.IH[OF _ 2] same_or_less_trans
  show ?case by blast
qed

text \<open>
  Claim C8, as the specification states it: the best tour and its cost are replaced only
  when an ant of the iteration has a \<^verbatim>\<open>tourLength\<close> strictly smaller than the best
  cost.  It fails in the first iteration of a run.  For two tasks the engine enters the
  loop with no best tour and the best cost 0; both ants end the iteration with
  \<^verbatim>\<open>tourLength\<close> 0, which is not smaller than 0; and yet after the iteration the best
  tour is the trail of the first ant, city 1 then city 0.
\<close>

theorem best_tour_replaced_only_when_shorter_counterexample:
  "map_sum id (\<lambda>rd. (bestTourOrder rd, bestTourLength rd))
     (prepared (rng_of [1 / 2, 0, 0, 1 / 2, 1 / 2, 0, 1 / 2, 1 / 2])
        [example_task 100 10 1, example_task 200 1 1])
   = Inr (NilTour, Num 0)
   \<and> map_sum id (\<lambda>rd. (map tourLength (ants rd), map (\<lambda>a. flt (tourLength a) (Num 0)) (ants rd),
                       tour_slice rd, bestTourLength rd))
     (bindR (prepared (rng_of [1 / 2, 0, 0, 1 / 2, 1 / 2, 0, 1 / 2, 1 / 2])
               [example_task 100 10 1, example_task 200 1 1]) iteration)
   = Inr ([Num 0, Num 0], [False, False], [1, 0], Num 0)"
  by (simp add: run_defs ant_defs tour_slice_def)

text \<open>
  Claim C8, amended: from its first recording on, the cost of the recorded best tour
  never increases across the iterations of a run.  An iteration that starts with no best
  tour recorded, the first of a run, records the trail and the \<^verbatim>\<open>tourLength\<close> of the
  first ant without a comparison, and then compares like every other.  An iteration that
  starts with a best tour recorded replaces the tour and its cost only when one of its
  ants has a \<^verbatim>\<open>tourLength\<close> strictly smaller than the best cost, and then by a copy of
  that ant's trail, in an array of its own; otherwise the tour keeps its cities and its
  cost.  After either, no ant of the iteration has a \<^verbatim>\<open>tourLength\<close> below the best
  cost, and after any number of further iterations the cost is the same or strictly
  smaller.
\<close>

theorem best_tour_cost_never_increases:
  assumes st: "settled rd"
    and 1: "iteration rd = Inr rd1" and 2: "iterations k rd1 = Inr rd2"
  shows "(if bestTourOrder rd = NilTour
          then ants rd1 \<noteq> []
               \<and> (tour_slice rd1 = trail (ants rd1 ! 0)
                    \<and> bestTourLength rd1 = tourLength (ants rd1 ! 0)
                  \<or> (\<exists>ant\<in>set (ants rd1). flt (tourLength ant) (tourLength (ants rd1 ! 0))
                        \<and> bestTourLength rd1 = tourLength ant
                        \<and> bestTourOrder rd1 = Owned (trail ant)))
          else (tour_slice rd1 = tour_slice rd \<and> bestTourLength rd1 = bestTourLength rd
                  \<or> (\<exists>ant\<in>set (ants rd1). flt (tourLength ant) (bestTourLength rd)
                        \<and> bestTourLength rd1 = tourLength ant
                        \<and> bestTourOrder rd1 = Owned (trail ant)))
               \<and> same_or_less (bestTourLength rd1) (bestTourLength rd))
       \<and> (\<forall>ant\<in>set (ants rd1). \<not> flt (tourLength ant) (bestTourLength rd1))
       \<and> bestTourOrder rd1 \<noteq> NilTour \<and> settled rd1
       \<and> same_or_less (bestTourLength rd2) (bestTourLength rd1)
       \<and> \<not> flt (bestTourLength rd1) (bestTourLength rd2)"
proof -
  from 1 obtain m1 m t l where mv: "moveAnts rd = Inr m1"
    and ub: "updateBest (m1\<lparr>pheromones := m\<rparr>) = Inr rd1"
    and rd1: "rd1 = m1\<lparr>pheromones := m, bestTourOrder := t, bestTourLength := l\<rparr>"
    by (rule iteration_Inr)
  have ants: "ants rd1 = ants m1" by (simp add: rd1)
  have "bestTourOrder (outside_construction m1) = bestTourOrder (outside_construction rd)"
    by (simp only: moveAnts_frame(1)[OF mv])
  then have same: "bestTourOrder m1 = bestTourOrder rd" by simp
  note ic = iteration_construction[OF 1]
  have st1: "settled rd1" using ic by (simp add: settled_def split: tour_ref.splits)
  have first: "ants rd1 \<noteq> []
               \<and> (tour_slice rd1 = trail (ants rd1 ! 0)
                    \<and> bestTourLength rd1 = tourLength (ants rd1 ! 0)
                  \<or> (\<exists>ant\<in>set (ants rd1). flt (tourLength ant) (tourLength (ants rd1 ! 0))
                        \<and> bestTourLength rd1 = tourLength ant
                        \<and> bestTourOrder rd1 = Owned (trail ant)))"
    and nf1: "\<forall>ant\<in>set (ants rd1). \<not> flt (tourLength ant) (bestTourLength rd1)"
    and nn1: "bestTourOrder rd1 \<noteq> NilTour"
    if nil: "bestTourOrder rd = NilTour"
  proof -
    have "bestTourOrder (m1\<lparr>pheromones := m\<rparr>) = NilTour" using nil same by simp
    note u = updateBest_first[OF this ub]
    from u(2) have d: "bestTourOrder rd1 = TrailOf 0 \<and> bestTourLength rd1 = tourLength (ants rd1 ! 0)
          \<or> (\<exists>ant\<in>set (ants rd1). flt (tourLength ant) (tourLength (ants rd1 ! 0))
                \<and> bestTourLength rd1 = tourLength ant \<and> bestTourOrder rd1 = Owned (trail ant))"
      by (simp add: ants)
    then show "bestTourOrder rd1 \<noteq> NilTour" by auto
    from u(1) d show "ants rd1 \<noteq> []
               \<and> (tour_slice rd1 = trail (ants rd1 ! 0)
                    \<and> bestTourLength rd1 = tourLength (ants rd1 ! 0)
                  \<or> (\<exists>ant\<in>set (ants rd1). flt (tourLength ant) (tourLength (ants rd1 ! 0))
                        \<and> bestTourLength rd1 = tourLength ant
                        \<and> bestTourOrder rd1 = Owned (trail ant)))"
      by (auto simp: ants tour_slice_def)
    from u(3) show "\<forall>ant\<in>set (ants rd1). \<not> flt (tourLength ant) (bestTourLength rd1)"
      by (simp add: ants)
  qed
  have later: "(tour_slice rd1 = tour_slice rd \<and> bestTourLength rd1 = bestTourLength rd
                  \<or> (\<exists>ant\<in>set (ants rd1). flt (tourLength ant) (bestTourLength rd)
                        \<and> bestTourLength rd1 = tourLength ant
                        \<and> bestTourOrder rd1 = Owned (trail ant)))
               \<and> same_or_less (bestTourLength rd1) (bestTourLength rd)"
    and nf2: "\<forall>ant\<in>set (ants rd1). \<not> flt (tourLength ant) (bestTourLength rd1)"
    and nn2: "bestTourOrder rd1 \<noteq> NilTour"
    if rec: "bestTourOrder rd \<noteq> NilTour"
  proof -
    note ib = iteration_best[OF rec 1]
    have content: "tour_slice rd1 = tour_slice rd" if eq: "bestTourOrder rd1 = bestTourOrder rd"
    proof (cases "bestTourOrder rd")
      case NilTour
      with rec show ?thesis by simp
    next
      case (TrailOf j)
      with st have "numberOfCities rd - 1 \<le> currentIndex rd" by (simp add: settled_def)
      from iteration_after_construction(1)[OF 1 this] eq show ?thesis
        by (simp add: tour_slice_def TrailOf)
    next
      case (Owned xs)
      with eq show ?thesis by (simp add: tour_slice_def)
    qed
    from ib(1) content show "(tour_slice rd1 = tour_slice rd \<and> bestTourLength rd1 = bestTourLength rd
                  \<or> (\<exists>ant\<in>set (ants rd1). flt (tourLength ant) (bestTourLength rd)
                        \<and> bestTourLength rd1 = tourLength ant
                        \<and> bestTourOrder rd1 = Owned (trail ant)))
               \<and> same_or_less (bestTourLength rd1) (bestTourLength rd)"
      using iteration_best_down[OF rec 1] by blast
    from ib(2) show "\<forall>ant\<in>set (ants rd1). \<not> flt (tourLength ant) (bestTourLength rd1)" .
    from iteration_best_down[OF rec 1] show "bestTourOrder rd1 \<noteq> NilTour" by simp
  qed
  have nn: "bestTourOrder rd1 \<noteq> NilTour" using nn1 nn2 by blast
  have nf: "\<forall>ant\<in>set (ants rd1). \<not> flt (tourLength ant) (bestTourLength rd1)"
    using nf1 nf2 by blast
  from iterations_best_down[OF nn 2]
  have down: "same_or_less (bestTourLength rd2) (bestTourLength rd1)" by simp
  from first later nn nf st1 down same_or_less_not_above[OF down] show ?thesis
    by (simp split: if_splits)
qed

text \<open>
  The hypotheses hold for the engine as it enters the loop on two tasks, where the first
  iteration records the trail of the first ant; and for the engine after that
  iteration with the recorded cost raised to 5, where the next iteration replaces the
  best tour by a copy of the first ant's trail, of length 0.
\<close>

theorem best_tour_cost_never_increases_witness:
  "let rd = projr (prepared (rng_of [1 / 2, 0, 0, 1 / 2, 1 / 2, 0, 1 / 2, 1 / 2])
                     [example_task 100 10 1, example_task 200 1 1]);
       rd1 = projr (iteration rd);
       rd2 = projr (iterations (Suc 0) rd1);
       sd = rd1\<lparr>bestTourLength := Num 5\<rparr>;
       sd1 = projr (iteration sd);
       sd2 = projr (iterations (Suc 0) sd1)
   in settled rd \<and> bestTourOrder rd = NilTour
      \<and> iteration rd = Inr rd1 \<and> iterations (Suc 0) rd1 = Inr rd2
      \<and> tour_slice rd1 = trail (ants rd1 ! 0) \<and> bestTourLength rd1 = tourLength (ants rd1 ! 0)
      \<and> same_or_less (bestTourLength rd2) (bestTourLength rd1)
      \<and> settled sd \<and> bestTourOrder sd = TrailOf 0
      \<and> iteration sd = Inr sd1 \<and> iterations (Suc 0) sd1 = Inr sd2
      \<and> map tourLength (ants sd1) = [Num 0, Num 0]
      \<and> bestTourOrder sd1 = Owned [1, 0] \<and> bestTourLength sd1 = Num 0
      \<and> same_or_less (bestTourLength sd1) (bestTourLength sd)
      \<and> same_or_less (bestTourLength sd2) (bestTourLength sd1)"
proof -
  let ?rd = "projr (prepared (rng_of [1 / 2, 0, 0, 1 / 2, 1 / 2, 0, 1 / 2, 1 / 2])
                     [example_task 100 10 1, example_task 200 1 1])"
  let ?rd1 = "projr (iteration ?rd)"
  let ?rd2 = "projr (iterations (Suc 0) ?rd1)"
  let ?sd = "?rd1\<lparr>bestTourLength := Num 5\<rparr>"
  let ?sd1 = "projr (iteration ?sd)"
  let ?sd2 = "projr (iterations (Suc 0) ?sd1)"
  have g0: "bestTourOrder ?rd = NilTour" by (simp add: run_defs ant_defs)
  then have g0': "settled ?rd" by (simp add: settled_def)
  have g1: "iteration ?rd = Inr ?rd1" by (simp add: run_defs ant_defs)
  have g2: "iterations (Suc 0) ?rd1 = Inr ?rd2" by (simp add: run_defs ant_defs)
  have gv: "bestTourOrder ?rd1 = TrailOf 0" "bestTourLength ?rd1 = Num 0"
    "map tourLength (ants ?rd1) = [Num 0, Num 0]"
    by (simp_all add: run_defs ant_defs)
  have h0: "bestTourOrder ?sd = TrailOf 0" by (simp add: gv)
  have h0': "settled ?sd" by (simp add: settled_def run_defs ant_defs)
  have h1: "iteration ?sd = Inr ?sd1" by (simp add: run_defs ant_defs)
  have h2: "iterations (Suc 0) ?sd1 = Inr ?sd2" by (simp add: run_defs ant_defs)
  have v: "map tourLength (ants ?sd1) = [Num 0, Num 0]"
    "bestTourOrder ?sd1 = Owned [1, 0]" "bestTourLength ?sd1 = Num 0"
    by (simp_all add: run_defs ant_defs)
  note first = best_tour_cost_never_increases[OF g0' g1 g2]
  note later = best_tour_cost_never_increases[OF h0' h1 h2]
  have a: "tour_slice ?rd1 = trail (ants ?rd1 ! 0)" by (simp add: tour_slice_def gv)
  have b: "bestTourLength ?rd1 = tourLength (ants ?rd1 ! 0)"
    using gv(3) by (simp add: gv(2) list_eq_iff_nth_eq)
  from first have c: "same_or_less (bestTourLength ?rd2) (bestTourLength ?rd1)" by simp
  from later h0 have d: "same_or_less (bestTourLength ?sd1) (bestTourLength ?sd)"
    "same_or_less (bestTourLength ?sd2) (bestTourLength ?sd1)"
    by simp_all
  from g0 g0' g1 g2 a b c h0 h0' h1 h2 v d show ?thesis
    unfolding Let_def by blast
qed

section \<open>The pheromone matrix\<close>

lemma nonneg_Num [simp]: "nonneg (Num a) \<longleftrightarrow> 0 \<le> a"
  by (auto simp: nonneg_def fge_def)

lemma nonneg_cases: "nonneg x \<longleftrightarrow> x = PosInf \<or> (\<exists>a. x = Num a \<and> 0 \<le> a)"
  by (cases x) (auto simp: nonneg_def fge_def)

lemma nonneg_round64: "0 \<le> x \<Longrightarrow> nonneg (round64 x)"
  using round64_sign(1)[of x] by (auto simp: nonneg_cases)

lemma nonneg_fadd:
  assumes "nonneg x" and "nonneg y"
  shows "nonneg (fadd x y)"
proof (cases x; cases y)
  fix a b assume "x = Num a" "y = Num b"
  with assms show ?thesis by (simp add: nonneg_round64)
qed (use assms in \<open>simp_all add: nonneg_def fge_def\<close>)

lemma nonneg_fmul:
  assumes "nonneg x" and "0 < r"
  shows "nonneg (fmul x (Num r))"
proof (cases x)
  case (Num a)
  with assms show ?thesis by (simp add: nonneg_round64)
qed (use assms in \<open>simp_all add: nonneg_def fge_def\<close>)

lemma nonneg_fdiv:
  assumes "0 < a" and "nonneg t"
  shows "nonneg (fdiv (Num a) t)"
proof (cases t)
  case (Num b)
  with assms have "0 \<le> a / b" by simp
  from nonneg_round64[OF this] assms(1) show ?thesis by (simp add: Num nonneg_cases)
qed (use assms in \<open>simp_all add: nonneg_def fge_def\<close>)

lemma index2_Inr:
  "index2 m i j = Inr x \<Longrightarrow>
     0 \<le> i \<and> i < int (length m) \<and> 0 \<le> j \<and> j < int (length (m ! nat i)) \<and> x = m ! nat i ! nat j"
  by (auto simp: index2_def bindR_eq_Inr dest!: index_Inr)

lemma store2_Inr:
  "store2 m i j v = Inr m' \<Longrightarrow>
     0 \<le> i \<and> i < int (length m) \<and> 0 \<le> j \<and> j < int (length (m ! nat i))
     \<and> m' = m[nat i := (m ! nat i)[nat j := v]]"
  by (auto simp: store2_def bindR_eq_Inr dest!: index_Inr store_Inr)

lemma all_nonneg_index2:
  assumes "all_nonneg m" and "index2 m i j = Inr x"
  shows "nonneg x"
proof -
  from index2_Inr[OF assms(2)] have "nat i < length m" "nat j < length (m ! nat i)"
    and x: "x = m ! nat i ! nat j" by auto
  then have "m ! nat i \<in> set m" "x \<in> set (m ! nat i)" by simp_all
  with assms(1) show ?thesis by (auto simp: all_nonneg_def)
qed

lemma all_nonneg_store2:
  assumes "all_nonneg m" and "store2 m i j v = Inr m'" and "nonneg v"
  shows "all_nonneg m'"
proof -
  from store2_Inr[OF assms(2)] have i: "nat i < length m"
    and m': "m' = m[nat i := (m ! nat i)[nat j := v]]" by auto
  have row: "\<forall>x\<in>set ((m ! nat i)[nat j := v]). nonneg x"
    using assms(1,3) i by (auto simp: all_nonneg_def dest!: set_update_subset_insert[THEN subsetD])
  show ?thesis unfolding m' all_nonneg_def
  proof
    fix r assume "r \<in> set (m[nat i := (m ! nat i)[nat j := v]])"
    then have "r = (m ! nat i)[nat j := v] \<or> r \<in> set m"
      using set_update_subset_insert[of m "nat i"] by auto
    then show "\<forall>x\<in>set r. nonneg x" using row assms(1) by (auto simp: all_nonneg_def)
  qed
qed

lemma add_pheromone_nonneg:
  "all_nonneg m \<Longrightarrow> nonneg c \<Longrightarrow> add_pheromone m a b c = Inr m' \<Longrightarrow> all_nonneg m'"
  by (auto simp: add_pheromone_def bindR_eq_Inr
      intro: all_nonneg_store2 nonneg_fadd all_nonneg_index2)

lemma clearTrails_nonneg:
  assumes "clearTrails rd = Inr rd'" and "all_nonneg (pheromones rd)"
    and "nonneg (initialPheromone rd)"
  shows "all_nonneg (pheromones rd')"
proof -
  from assms(1) obtain m where loop: "foldR (\<lambda>i m1.
                foldR (\<lambda>j m. store2 m i j (initialPheromone rd))
                  [0 .. numberOfCities rd - 1] m1)
              [0 .. numberOfCities rd - 1] (pheromones rd) = Inr m"
    and rd': "rd' = rd\<lparr>pheromones := m\<rparr>"
    by (auto simp: clearTrails_def bindR_eq_Inr)
  have "all_nonneg m"
  proof (rule foldR_preserves[OF loop, where P = all_nonneg])
    show "all_nonneg (pheromones rd)" by (rule assms(2))
  next
    fix i m1 m1'
    assume m1: "all_nonneg m1"
      and row: "foldR (\<lambda>j m. store2 m i j (initialPheromone rd)) [0 .. numberOfCities rd - 1] m1 = Inr m1'"
    show "all_nonneg m1'"
      by (rule foldR_preserves[OF row, where P = all_nonneg])
        (auto intro: m1 all_nonneg_store2 assms(3))
  qed
  then show ?thesis by (simp add: rd')
qed

lemma updateTrails_nonneg:
  assumes "updateTrails rd = Inr rd'" and "all_nonneg (pheromones rd)"
    and "remainingFactor rd = Num r" and "0 < r" and "q rd = Num a" and "0 < a"
    and "\<forall>ant\<in>set (ants rd). nonneg (tourLength ant)"
  shows "all_nonneg (pheromones rd')"
proof -
  from assms(1) obtain ev m where evap: "foldR (\<lambda>i m1.
                foldR (\<lambda>j m.
                    bindR (index2 m i j) (\<lambda>p. store2 m i j (fmul p (remainingFactor rd))))
                  [0 .. numberOfCities rd - 1] m1)
              [0 .. numberOfCities rd - 1] (pheromones rd) = Inr ev"
    and reinf: "foldR (\<lambda>ant m2.
                let contribution = fdiv (q rd) (tourLength ant) in
                bindR (foldR (\<lambda>i m.
                           bindR (index (trail ant) i) (\<lambda>a.
                           bindR (index (trail ant) (i + 1)) (\<lambda>b.
                           add_pheromone m a b contribution)))
                         [0 .. numberOfCities rd - 2] m2) (\<lambda>m3.
                bindR (index (trail ant) (numberOfCities rd - 1)) (\<lambda>a.
                bindR (index (trail ant) 0) (\<lambda>b.
                add_pheromone m3 a b contribution))))
              (ants rd) ev = Inr m"
    and rd': "rd' = rd\<lparr>pheromones := m\<rparr>"
    by (auto simp: updateTrails_def bindR_eq_Inr)
  have ev: "all_nonneg ev"
  proof (rule foldR_preserves[OF evap, where P = all_nonneg])
    show "all_nonneg (pheromones rd)" by (rule assms(2))
  next
    fix i m1 m1'
    assume m1: "all_nonneg m1"
      and row: "foldR (\<lambda>j m. bindR (index2 m i j) (\<lambda>p. store2 m i j (fmul p (remainingFactor rd))))
             [0 .. numberOfCities rd - 1] m1 = Inr m1'"
    show "all_nonneg m1'"
    proof (rule foldR_preserves[OF row, where P = all_nonneg])
      show "all_nonneg m1" by (rule m1)
    next
      fix j m m'
      assume m: "all_nonneg m"
        and "bindR (index2 m i j) (\<lambda>p. store2 m i j (fmul p (remainingFactor rd))) = Inr m'"
      then obtain p where p: "index2 m i j = Inr p" and st: "store2 m i j (fmul p (Num r)) = Inr m'"
        by (auto simp: bindR_eq_Inr assms(3))
      from all_nonneg_index2[OF m p] have "nonneg (fmul p (Num r))"
        by (rule nonneg_fmul) (rule assms(4))
      with m st show "all_nonneg m'" by (rule all_nonneg_store2)
    qed
  qed
  have "all_nonneg m"
  proof (rule foldR_preserves[OF reinf, where P = all_nonneg])
    show "all_nonneg ev" by (rule ev)
  next
    fix ant m2 m2'
    assume ant: "ant \<in> set (ants rd)" and m2: "all_nonneg m2"
      and step: "(let contribution = fdiv (q rd) (tourLength ant) in
                bindR (foldR (\<lambda>i m.
                           bindR (index (trail ant) i) (\<lambda>a.
                           bindR (index (trail ant) (i + 1)) (\<lambda>b.
                           add_pheromone m a b contribution)))
                         [0 .. numberOfCities rd - 2] m2) (\<lambda>m3.
                bindR (index (trail ant) (numberOfCities rd - 1)) (\<lambda>a.
                bindR (index (trail ant) 0) (\<lambda>b.
                add_pheromone m3 a b contribution)))) = Inr m2'"
    define c where "c = fdiv (q rd) (tourLength ant)"
    have c: "nonneg c" unfolding c_def assms(5) using assms(6,7) ant by (intro nonneg_fdiv) auto
    from step obtain m3 x y where edges: "foldR (\<lambda>i m.
                           bindR (index (trail ant) i) (\<lambda>a.
                           bindR (index (trail ant) (i + 1)) (\<lambda>b.
                           add_pheromone m a b c)))
                         [0 .. numberOfCities rd - 2] m2 = Inr m3"
      and closing: "add_pheromone m3 x y c = Inr m2'"
      by (auto simp: bindR_eq_Inr Let_def c_def)
    have "all_nonneg m3"
    proof (rule foldR_preserves[OF edges, where P = all_nonneg])
      show "all_nonneg m2" by (rule m2)
    next
      fix i m m'
      assume "all_nonneg m"
        and "bindR (index (trail ant) i) (\<lambda>a.
               bindR (index (trail ant) (i + 1)) (\<lambda>b. add_pheromone m a b c)) = Inr m'"
      then show "all_nonneg m'"
        using c by (auto simp: bindR_eq_Inr intro: add_pheromone_nonneg)
    qed
    then show "all_nonneg m2'" using closing c by (auto intro: add_pheromone_nonneg)
  qed
  then show ?thesis by (simp add: rd')
qed

lemma outside_setup_fields [simp]:
  "tasks (outside_setup rd) = tasks rd"
  "pheromones (outside_setup rd) = pheromones rd"
  "distances (outside_setup rd) = distances rd"
  "initialPheromone (outside_setup rd) = initialPheromone rd"
  "remainingFactor (outside_setup rd) = remainingFactor rd"
  "q (outside_setup rd) = q rd"
  "numberOfCities (outside_setup rd) = numberOfCities rd"
  "numberOfAnts (outside_setup rd) = numberOfAnts rd"
  by (simp_all add: outside_setup_def)

lemma tourLength_bare: "map bare xs = map bare ys \<Longrightarrow> map tourLength xs = map tourLength ys"
proof -
  assume "map bare xs = map bare ys"
  then have "map tourLength (map bare xs) = map tourLength (map bare ys)" by simp
  then show ?thesis by (simp add: comp_def)
qed

lemma iteration_nonneg:
  assumes "iteration rd = Inr rd'" and "all_nonneg (pheromones rd)"
    and "remainingFactor rd = Num r" and "0 < r" and "q rd = Num a" and "0 < a"
    and "\<forall>t\<in>set (map tourLength (ants rd)). nonneg t"
  shows "all_nonneg (pheromones rd')" and "remainingFactor rd' = Num r" and "q rd' = Num a"
    and "\<forall>t\<in>set (map tourLength (ants rd')). nonneg t"
proof -
  from assms(1) obtain rd1 m t l where mv: "moveAnts rd = Inr rd1"
    and ut: "updateTrails rd1 = Inr (rd1\<lparr>pheromones := m\<rparr>)"
    and rd': "rd' = rd1\<lparr>pheromones := m, bestTourOrder := t, bestTourLength := l\<rparr>"
    by (rule iteration_Inr)
  note fr = moveAnts_frame(1)[OF mv]
  have "pheromones (outside_construction rd1) = pheromones (outside_construction rd)"
    "remainingFactor (outside_construction rd1) = remainingFactor (outside_construction rd)"
    "q (outside_construction rd1) = q (outside_construction rd)"
    "ants (outside_construction rd1) = ants (outside_construction rd)"
    by (simp_all only: fr)
  then have same: "pheromones rd1 = pheromones rd" "remainingFactor rd1 = remainingFactor rd"
    "q rd1 = q rd" "map bare (ants rd1) = map bare (ants rd)"
    by simp_all
  from tourLength_bare[OF same(4)] assms(7)
  have tl: "\<forall>t\<in>set (map tourLength (ants rd1)). nonneg t" by simp
  have "all_nonneg (pheromones (rd1\<lparr>pheromones := m\<rparr>))"
    by (rule updateTrails_nonneg[OF ut, of r a]) (use assms same tl in simp_all)
  then show "all_nonneg (pheromones rd')" and "remainingFactor rd' = Num r" and "q rd' = Num a"
    and "\<forall>t\<in>set (map tourLength (ants rd')). nonneg t"
    using same assms(3,5) tl by (simp_all add: rd')
qed

lemma iterations_nonneg:
  assumes "iterations k rd = Inr rd'" and "all_nonneg (pheromones rd)"
    and "remainingFactor rd = Num r" and "0 < r" and "q rd = Num a" and "0 < a"
    and "\<forall>t\<in>set (map tourLength (ants rd)). nonneg t"
  shows "all_nonneg (pheromones rd')"
  using assms
proof (induction k arbitrary: rd)
  case 0
  then show ?case by simp
next
  case (Suc k)
  from Suc.prems(1) obtain rd1 where 1: "iteration rd = Inr rd1" and 2: "iterations k rd1 = Inr rd'"
    by (auto simp: bindR_eq_Inr)
  note it = iteration_nonneg[OF 1 Suc.prems(2,3,4,5,6,7)]
  show ?case by (rule Suc.IH[OF 2 it(1) it(2) Suc.prems(4) it(3) Suc.prems(6) it(4)])
qed

text \<open>
  Claim C7: every entry of the pheromone matrix is non-negative after initialization and
  stays non-negative after any number of iterations of evaporation and reinforcement.
  Here for the engine as \<^verbatim>\<open>NewRouteDiscovery\<close> returns it, as it enters the loop of
  \<^verbatim>\<open>InitiateOptimization\<close>, and after any number k of iterations.
\<close>

theorem pheromones_stay_nonneg:
  assumes "NewRouteDiscovery seed ts = Inr rd0" and "setupAnts rd0 = Inr rd1"
    and "clearTrails rd1 = Inr rd2" and "iterations k rd2 = Inr rd3"
  shows "all_nonneg (pheromones rd0) \<and> all_nonneg (pheromones rd2) \<and> all_nonneg (pheromones rd3)"
proof -
  from assms(1) have rd0: "pheromones rd0 =
      replicate (length (remdups (map TaskID ts))) (replicate (length (remdups (map TaskID ts))) (Num 1))"
    "initialPheromone rd0 = Num 1" "remainingFactor rd0 = Num (1 / 2)" "q rd0 = Num 500"
    unfolding NewRouteDiscovery_eq[OF refl] by auto
  have p0: "all_nonneg (pheromones rd0)" by (auto simp: rd0 all_nonneg_def)
  note su = setupAnts_Inr[OF assms(2)]
  have "pheromones (outside_setup rd1) = pheromones (outside_setup rd0)"
    "initialPheromone (outside_setup rd1) = initialPheromone (outside_setup rd0)"
    "remainingFactor (outside_setup rd1) = remainingFactor (outside_setup rd0)"
    "q (outside_setup rd1) = q (outside_setup rd0)"
    by (simp_all only: su(1))
  then have rd1: "pheromones rd1 = pheromones rd0" "initialPheromone rd1 = Num 1"
    "remainingFactor rd1 = Num (1 / 2)" "q rd1 = Num 500"
    by (simp_all add: rd0)
  have tl1: "\<forall>t\<in>set (map tourLength (ants rd1)). nonneg t"
  proof
    fix t assume "t \<in> set (map tourLength (ants rd1))"
    then obtain i where i: "i < length (ants rd1)" and t: "t = tourLength (ants rd1 ! i)"
      by (auto simp: in_set_conv_nth)
    from i su(2) su(5) have "tourLength (ants rd1 ! i) = Num 0"
      by (simp add: newAnt_def)
    then show "nonneg t" by (simp add: t)
  qed
  have p2: "all_nonneg (pheromones rd2)"
    by (rule clearTrails_nonneg[OF assms(3)]) (simp_all add: rd1 p0)
  from clearTrails_frame[OF assms(3)] obtain m where rd2: "rd2 = rd1\<lparr>pheromones := m\<rparr>" by blast
  have "all_nonneg (pheromones rd3)"
    by (rule iterations_nonneg[OF assms(4) p2, of "1 / 2" 500]) (use tl1 in \<open>simp_all add: rd2 rd1\<close>)
  with p0 p2 show ?thesis by simp
qed

text \<open>The hypotheses hold for two tasks and two iterations.\<close>

theorem pheromones_stay_nonneg_witness:
  "let rd0 = projr (NewRouteDiscovery (rng_of [1 / 2, 0, 0, 1 / 2, 1 / 2, 0, 1 / 2, 1 / 2])
                     [example_task 100 10 1, example_task 200 1 1]);
       rd1 = projr (setupAnts rd0);
       rd2 = projr (clearTrails rd1);
       rd3 = projr (iterations (Suc (Suc 0)) rd2)
   in NewRouteDiscovery (rng_of [1 / 2, 0, 0, 1 / 2, 1 / 2, 0, 1 / 2, 1 / 2])
                     [example_task 100 10 1, example_task 200 1 1] = Inr rd0
      \<and> setupAnts rd0 = Inr rd1 \<and> clearTrails rd1 = Inr rd2
      \<and> iterations (Suc (Suc 0)) rd2 = Inr rd3
      \<and> pheromones rd2 = [[Num 1, Num 1], [Num 1, Num 1]]
      \<and> pheromones rd3 = [[Num (1 / 4), PosInf], [PosInf, Num (1 / 4)]]
      \<and> all_nonneg (pheromones rd0) \<and> all_nonneg (pheromones rd2) \<and> all_nonneg (pheromones rd3)"
proof -
  let ?rd0 = "projr (NewRouteDiscovery (rng_of [1 / 2, 0, 0, 1 / 2, 1 / 2, 0, 1 / 2, 1 / 2])
                     [example_task 100 10 1, example_task 200 1 1])"
  let ?rd1 = "projr (setupAnts ?rd0)"
  let ?rd2 = "projr (clearTrails ?rd1)"
  let ?rd3 = "projr (iterations (Suc (Suc 0)) ?rd2)"
  have h0: "NewRouteDiscovery (rng_of [1 / 2, 0, 0, 1 / 2, 1 / 2, 0, 1 / 2, 1 / 2])
                     [example_task 100 10 1, example_task 200 1 1] = Inr ?rd0"
    by (simp add: run_defs)
  have h1: "setupAnts ?rd0 = Inr ?rd1" by (simp add: run_defs ant_defs)
  have h2: "clearTrails ?rd1 = Inr ?rd2" by (simp add: run_defs ant_defs)
  have h3: "iterations (Suc (Suc 0)) ?rd2 = Inr ?rd3" by (simp add: run_defs ant_defs)
  have v: "pheromones ?rd2 = [[Num 1, Num 1], [Num 1, Num 1]]"
    "pheromones ?rd3 = [[Num (1 / 4), PosInf], [PosInf, Num (1 / 4)]]"
    by (simp_all add: run_defs ant_defs)
  from pheromones_stay_nonneg[OF h0 h1 h2 h3] h0 h1 h2 h3 v show ?thesis
    by (simp add: Let_def)
qed

section \<open>The next city\<close>

lemma upto_eq_map: "[0 .. int n - 1] = map int [0 ..< n]"
  by (rule nth_equalityI) (simp_all add: nth_upto)

lemma desirability_eq:
  assumes "square n (pheromones rd)" and "square n (distances rd)" and "i < n" and "l < n"
  shows "desirability rd ant (int i) (int l) = Inr (score rd ant i l)"
  using assms by (simp add: desirability_def score_def index2_in[of n])

lemma random_pick_from:
  assumes "length vs = n" and "k \<le> n"
  shows "random_pick t vs (map int [k ..< n]) =
           Inr (if int k \<le> t \<and> t < int n \<and> \<not> vs ! nat t then Some t else None)"
  using assms(2)
proof (induction "n - k" arbitrary: k)
  case 0
  then show ?case by simp
next
  case (Suc d)
  then have k: "k < n" and d: "d = n - Suc k" and le: "Suc k \<le> n" by simp_all
  have up: "[k ..< n] = k # [Suc k ..< n]" using k by (simp add: upt_conv_Cons)
  show ?case
  proof (cases "t = int k")
    case True
    then show ?thesis
      using k assms(1) Suc.hyps(1)[OF d le] by (simp add: up)
  next
    case False
    then show ?thesis
      using Suc.hyps(1)[OF d le] by (auto simp: up)
  qed
qed

lemma random_pick_eq:
  assumes "length vs = n"
  shows "random_pick t vs [0 .. int n - 1] =
           Inr (if 0 \<le> t \<and> t < int n \<and> \<not> vs ! nat t then Some t else None)"
  using random_pick_from[OF assms, of 0 t] by (simp add: upto_eq_map)

lemma cumulative_Suc: "k < length ps \<Longrightarrow> cumulative ps (Suc k) = fadd (cumulative ps k) (ps ! k)"
  by (simp add: cumulative_def take_Suc_conv_app_nth)

lemma roulette_from:
  assumes "k \<le> length ps"
  shows "roulette ps r (cumulative ps k) (map int [k ..< length ps]) =
           (case find (\<lambda>c. fge (cumulative ps (Suc c)) r) [k ..< length ps] of
              None \<Rightarrow> Inl NoOtherCities | Some c \<Rightarrow> Inr (int c))"
  using assms
proof (induction "length ps - k" arbitrary: k)
  case 0
  then show ?case by simp
next
  case (Suc d)
  then have k: "k < length ps" and d: "d = length ps - Suc k" and le: "Suc k \<le> length ps"
    by simp_all
  have up: "[k ..< length ps] = k # [Suc k ..< length ps]" using k by (simp add: upt_conv_Cons)
  show ?case
    using k Suc.hyps(1)[OF d le] by (simp add: up cumulative_Suc)
qed

lemma roulette_eq:
  "roulette ps r (Num 0) [0 .. int (length ps) - 1] =
     (case wheel ps r of None \<Rightarrow> Inl NoOtherCities | Some c \<Rightarrow> Inr (int c))"
  using roulette_from[of 0 ps r] by (simp add: upto_eq_map wheel_def cumulative_def)


lemma calculateProbabilities_eq:
  assumes n: "numberOfCities rd = int n"
    and sq: "square n (pheromones rd)" "square n (distances rd)"
    and len: "length (visited ant) = n" "length (probabilities rd) = n"
    and cur: "index (trail ant) (currentIndex rd) = Inr (int i)" "i < n"
  shows "calculateProbabilities rd ant = Inr (rd\<lparr>probabilities := normalized rd ant i\<rparr>)"
proof -
  let ?unv = "\<lambda>l. \<not> visited ant ! l"
  have total: "\<exists>s. foldR (\<lambda>l pheromone.
                bindR (index (visited ant) l) (\<lambda>v.
                if \<not> v then bindR (desirability rd ant (int i) l) (\<lambda>x. Inr (fadd pheromone x))
                else Inr pheromone))
              [0 .. int n - 1] (Num 0) = Inr s
        \<and> s = foldl fadd (Num 0) (map (score rd ant i) (filter ?unv [0 ..< n]))"
  proof (rule foldR_range_inv[where I = "\<lambda>k s. s = foldl fadd (Num 0)
        (map (score rd ant i) (filter ?unv [0 ..< k]))"])
    show "Num 0 = foldl fadd (Num 0) (map (score rd ant i) (filter ?unv [0 ..< 0]))" by simp
  next
    fix k s
    assume k: "k < n" and s: "s = foldl fadd (Num 0) (map (score rd ant i) (filter ?unv [0 ..< k]))"
    show "\<exists>s'. bindR (index (visited ant) (int k)) (\<lambda>v.
                if \<not> v then bindR (desirability rd ant (int i) (int k)) (\<lambda>x. Inr (fadd s x))
                else Inr s) = Inr s'
        \<and> s' = foldl fadd (Num 0) (map (score rd ant i) (filter ?unv [0 ..< Suc k]))"
      using k len(1) desirability_eq[OF sq cur(2) k, of ant] by (simp add: s)
  qed
  have fill: "\<exists>ps. foldR (\<lambda>j ps.
                bindR (index (visited ant) j) (\<lambda>v.
                if v then store ps j (Num 0)
                else bindR (desirability rd ant (int i) j) (\<lambda>numerator.
                     store ps j (fdiv numerator (unvisited_sum rd ant i)))))
              [0 .. int n - 1] (probabilities rd) = Inr ps
        \<and> (length ps = n \<and> (\<forall>j<n. ps ! j = (if j < n then normalized rd ant i ! j
                                              else probabilities rd ! j)))"
  proof (rule foldR_range_inv[where I = "\<lambda>k ps. length ps = n \<and>
        (\<forall>j<n. ps ! j = (if j < k then normalized rd ant i ! j else probabilities rd ! j))"])
    show "length (probabilities rd) = n \<and>
        (\<forall>j<n. probabilities rd ! j = (if j < 0 then normalized rd ant i ! j else probabilities rd ! j))"
      by (simp add: len)
  next
    fix k ps
    assume k: "k < n" and I: "length ps = n \<and>
        (\<forall>j<n. ps ! j = (if j < k then normalized rd ant i ! j else probabilities rd ! j))"
    have nk: "normalized rd ant i ! k = (if visited ant ! k then Num 0
              else fdiv (score rd ant i k) (unvisited_sum rd ant i))"
      using k by (simp add: normalized_def n)
    have "bindR (index (visited ant) (int k)) (\<lambda>v.
                if v then store ps (int k) (Num 0)
                else bindR (desirability rd ant (int i) (int k)) (\<lambda>numerator.
                     store ps (int k) (fdiv numerator (unvisited_sum rd ant i))))
        = Inr (ps[k := normalized rd ant i ! k])"
      using k len(1) I desirability_eq[OF sq cur(2) k, of ant] by (simp add: nk)
    moreover have "length (ps[k := normalized rd ant i ! k]) = n \<and>
        (\<forall>j<n. ps[k := normalized rd ant i ! k] ! j =
           (if j < Suc k then normalized rd ant i ! j else probabilities rd ! j))"
      using I k by (auto simp: nth_list_update less_Suc_eq)
    ultimately show "\<exists>s'. bindR (index (visited ant) (int k)) (\<lambda>v.
                if v then store ps (int k) (Num 0)
                else bindR (desirability rd ant (int i) (int k)) (\<lambda>numerator.
                     store ps (int k) (fdiv numerator (unvisited_sum rd ant i)))) = Inr s'
        \<and> (length s' = n \<and>
        (\<forall>j<n. s' ! j = (if j < Suc k then normalized rd ant i ! j else probabilities rd ! j)))"
      by simp
  qed
  then obtain ps where ps: "foldR (\<lambda>j ps.
                bindR (index (visited ant) j) (\<lambda>v.
                if v then store ps j (Num 0)
                else bindR (desirability rd ant (int i) j) (\<lambda>numerator.
                     store ps j (fdiv numerator (unvisited_sum rd ant i)))))
              [0 .. int n - 1] (probabilities rd) = Inr ps"
    and l: "length ps = n" and each: "\<forall>j<n. ps ! j = normalized rd ant i ! j"
    by auto
  have "ps = normalized rd ant i"
    using l each by (intro nth_equalityI) (simp_all add: normalized_def n)
  with ps have fill': "foldR (\<lambda>j ps.
                bindR (index (visited ant) j) (\<lambda>v.
                if v then store ps j (Num 0)
                else bindR (desirability rd ant (int i) j) (\<lambda>numerator.
                     store ps j (fdiv numerator (unvisited_sum rd ant i)))))
              [0 .. int n - 1] (probabilities rd) = Inr (normalized rd ant i)"
    by simp
  from total have total': "foldR (\<lambda>l pheromone.
                bindR (index (visited ant) l) (\<lambda>v.
                if \<not> v then bindR (desirability rd ant (int i) l) (\<lambda>x. Inr (fadd pheromone x))
                else Inr pheromone))
              [0 .. int n - 1] (Num 0) = Inr (unvisited_sum rd ant i)"
    by (simp add: unvisited_sum_def n)
  show ?thesis
    unfolding calculateProbabilities_def cur(1) n by (simp add: total' fill')
qed


lemma score_random [simp]: "score (rd\<lparr>random := g\<rparr>) = score rd"
  by (simp add: fun_eq_iff score_def)

lemma normalized_random [simp]: "normalized (rd\<lparr>random := g\<rparr>) ant i = normalized rd ant i"
  by (simp add: normalized_def unvisited_sum_def)

lemma length_normalized [simp]: "length (normalized rd ant i) = nat (numberOfCities rd)"
  by (simp add: normalized_def)


lemma wheel_Some:
  "wheel ps r = Some c \<longleftrightarrow>
     c < length ps \<and> fge (cumulative ps (Suc c)) r \<and> (\<forall>j<c. \<not> fge (cumulative ps (Suc j)) r)"
  unfolding wheel_def find_Some_iff by auto

lemma wheel_None: "wheel ps r = None \<longleftrightarrow> (\<forall>c<length ps. \<not> fge (cumulative ps (Suc c)) r)"
  unfolding wheel_def find_None_iff by auto

lemma selectNextCity_eq:
  assumes n: "numberOfCities rd = int n"
    and sq: "square n (pheromones rd)" "square n (distances rd)"
    and len: "length (visited ant) = n" "length (probabilities rd) = n"
    and ci: "0 \<le> currentIndex rd" "currentIndex rd < int n"
    and cur: "index (trail ant) (currentIndex rd) = Inr (int i)" "i < n"
  shows "selectNextCity rd ant =
     (let g = random rd;
          t = drawn_city g (int n - currentIndex rd) 0;
          u = Num (frac (tape g (pos g + 1)));
          r = Num (frac (tape g (pos g + 2)))
      in if flt u (randomFactor rd) \<and> \<not> visited ant ! nat t
         then Inr (t, rd\<lparr>random := g\<lparr>pos := pos g + 2\<rparr>\<rparr>)
         else case wheel (normalized rd ant i) r of
                None \<Rightarrow> Inl NoOtherCities
              | Some c \<Rightarrow> Inr (int c, rd\<lparr>probabilities := normalized rd ant i,
                                         random := g\<lparr>pos := pos g + 3\<rparr>\<rparr>))"
    and "0 \<le> drawn_city (random rd) (int n - currentIndex rd) 0"
    and "drawn_city (random rd) (int n - currentIndex rd) 0 < int n - currentIndex rd"
proof -
  define g where "g = random rd"
  define t where "t = drawn_city g (int n - currentIndex rd) 0"
  define g2 where "g2 = g\<lparr>pos := pos g + 2\<rparr>"
  define rd1 where "rd1 = rd\<lparr>random := g2\<rparr>"
  have pos: "0 < int n - currentIndex rd" using ci by simp
  from drawn_city_range[OF pos, of g 0] have t: "0 \<le> t" "t < int n - currentIndex rd"
    by (simp_all add: t_def)
  then have tn: "t < int n" using ci by simp
  have draw: "Intn (numberOfCities rd - currentIndex rd) (random rd) = Inr (t, g\<lparr>pos := Suc (pos g)\<rparr>)"
    using pos by (simp add: Intn_def n t_def drawn_city_def g_def)
  have pick: "random_pick t (visited ant) [0 .. int n - 1] =
      Inr (if \<not> visited ant ! nat t then Some t else None)"
    using random_pick_eq[OF len(1), of t] t tn by simp
  have cp: "calculateProbabilities rd1 ant = Inr (rd1\<lparr>probabilities := normalized rd ant i\<rparr>)"
    using calculateProbabilities_eq[of rd1 n ant i] n sq len cur by (simp add: rd1_def)
  have wh: "roulette (normalized rd ant i) r (Num 0) [0 .. int n - 1] =
     (case wheel (normalized rd ant i) r of None \<Rightarrow> Inl NoOtherCities | Some c \<Rightarrow> Inr (int c))" for r
    using roulette_eq[of "normalized rd ant i" r] by (simp add: n)
  have sel: "selectNextCity rd ant =
     (if flt (Num (frac (tape g (pos g + 1)))) (randomFactor rd) \<and> \<not> visited ant ! nat t
         then Inr (t, rd1)
         else case wheel (normalized rd ant i) (Num (frac (tape g (pos g + 2)))) of
                None \<Rightarrow> Inl NoOtherCities
              | Some c \<Rightarrow> Inr (int c, rd\<lparr>probabilities := normalized rd ant i,
                                         random := g\<lparr>pos := pos g + 3\<rparr>\<rparr>))"
  proof (cases "flt (Num (frac (tape g (pos g + 1)))) (randomFactor rd) \<and> \<not> visited ant ! nat t")
    case True
    then show ?thesis
      unfolding selectNextCity_def draw
      by (simp add: Float64_def Let_def rd1_def g2_def n pick)
  next
    case False
    then have none: "(if flt (Num (frac (tape g (Suc (pos g))))) (randomFactor rd)
            then random_pick t (visited ant) [0 .. int n - 1]
            else Inr None) = Inr None"
      by (auto simp: pick)
    have cp': "calculateProbabilities (rd\<lparr>random := g\<lparr>pos := Suc (Suc (pos g))\<rparr>\<rparr>) ant
       = Inr (rd\<lparr>random := g\<lparr>pos := Suc (Suc (pos g))\<rparr>,
                  probabilities := normalized rd ant i\<rparr>)"
      using cp by (simp add: rd1_def g2_def)
    show ?thesis
      unfolding selectNextCity_def draw
      using False
      by (auto simp: Float64_def Let_def n pick cp' wh numeral_3_eq_3 split: option.splits)
  qed
  from sel show "selectNextCity rd ant =
     (let g = random rd;
          t = drawn_city g (int n - currentIndex rd) 0;
          u = Num (frac (tape g (pos g + 1)));
          r = Num (frac (tape g (pos g + 2)))
      in if flt u (randomFactor rd) \<and> \<not> visited ant ! nat t
         then Inr (t, rd\<lparr>random := g\<lparr>pos := pos g + 2\<rparr>\<rparr>)
         else case wheel (normalized rd ant i) r of
                None \<Rightarrow> Inl NoOtherCities
              | Some c \<Rightarrow> Inr (int c, rd\<lparr>probabilities := normalized rd ant i,
                                         random := g\<lparr>pos := pos g + 3\<rparr>\<rparr>))"
    by (simp add: Let_def g_def[symmetric] t_def[symmetric] rd1_def g2_def)
  from t show "0 \<le> drawn_city (random rd) (int n - currentIndex rd) 0"
    and "drawn_city (random rd) (int n - currentIndex rd) 0 < int n - currentIndex rd"
    by (simp_all add: t_def g_def)
qed

text \<open>
  Claim C10, amended.  In the selection of the next city the ant draws an index t below
  numberOfCities - currentIndex and a number u in [0, 1).  When u is below
  \<^verbatim>\<open>randomFactor\<close> and city t is unvisited, the next city is t.  Otherwise (u is not
  below \<^verbatim>\<open>randomFactor\<close>, or city t is visited) the probabilities are computed: zero
  for every visited city, and for an unvisited city its desirability score divided by the
  sum of the scores of the unvisited cities, each operation rounded as \<^verbatim>\<open>float64\<close>
  rounds; and the next city is the first one, in the order of the indices, whose
  cumulative probability is at least one further draw r.  This for an engine of n cities
  with its matrices and slices of that size, and an ant standing on city i at step
  \<^verbatim>\<open>currentIndex\<close>.  The statement also says what the call does when no city reaches
  the draw: it panics.
\<close>

theorem next_city_selection:
  assumes n: "numberOfCities rd = int n"
    and sq: "square n (pheromones rd)" "square n (distances rd)"
    and len: "length (visited ant) = n" "length (probabilities rd) = n"
    and ci: "0 \<le> currentIndex rd" "currentIndex rd < int n"
    and cur: "index (trail ant) (currentIndex rd) = Inr (int i)" "i < n"
  shows "selectNextCity rd ant =
     (let g = random rd;
          t = drawn_city g (int n - currentIndex rd) 0;
          u = Num (frac (tape g (pos g + 1)));
          r = Num (frac (tape g (pos g + 2)))
      in if flt u (randomFactor rd) \<and> \<not> visited ant ! nat t
         then Inr (t, rd\<lparr>random := g\<lparr>pos := pos g + 2\<rparr>\<rparr>)
         else case wheel (normalized rd ant i) r of
                None \<Rightarrow> Inl NoOtherCities
              | Some c \<Rightarrow> Inr (int c, rd\<lparr>probabilities := normalized rd ant i,
                                         random := g\<lparr>pos := pos g + 3\<rparr>\<rparr>))
     \<and> 0 \<le> drawn_city (random rd) (int n - currentIndex rd) 0
     \<and> drawn_city (random rd) (int n - currentIndex rd) 0 < int n - currentIndex rd
     \<and> (\<forall>j<n. normalized rd ant i ! j =
            (if visited ant ! j then Num 0
             else fdiv (score rd ant i j) (unvisited_sum rd ant i)))
     \<and> (\<forall>r c. wheel (normalized rd ant i) r = Some c \<longleftrightarrow>
            c < n \<and> fge (cumulative (normalized rd ant i) (Suc c)) r
            \<and> (\<forall>j<c. \<not> fge (cumulative (normalized rd ant i) (Suc j)) r))
     \<and> (\<forall>r. wheel (normalized rd ant i) r = None \<longleftrightarrow>
            (\<forall>c<n. \<not> fge (cumulative (normalized rd ant i) (Suc c)) r))"
proof -
  note eq = selectNextCity_eq[OF n sq len ci cur]
  have each: "\<forall>j<n. normalized rd ant i ! j =
            (if visited ant ! j then Num 0
             else fdiv (score rd ant i j) (unvisited_sum rd ant i))"
    by (simp add: normalized_def n)
  have ln: "length (normalized rd ant i) = n" by (simp add: n)
  have some: "\<forall>r c. wheel (normalized rd ant i) r = Some c \<longleftrightarrow>
            c < n \<and> fge (cumulative (normalized rd ant i) (Suc c)) r
            \<and> (\<forall>j<c. \<not> fge (cumulative (normalized rd ant i) (Suc j)) r)"
    by (simp only: wheel_Some ln) simp
  have none: "\<forall>r. wheel (normalized rd ant i) r = None \<longleftrightarrow>
            (\<forall>c<n. \<not> fge (cumulative (normalized rd ant i) (Suc c)) r)"
    by (simp only: wheel_None ln) simp
  from eq each some none show ?thesis by blast
qed

text \<open>
  Claim C10, as the specification states it: with probability \<^verbatim>\<open>randomFactor\<close> the ant
  picks its next city at random among exactly the unvisited cities, and otherwise from a
  probability distribution over them.  It fails.  Take four tasks and an ant that has
  visited cities 0 and 1, at step 1; the draw u is 0, below \<^verbatim>\<open>randomFactor\<close>.  When
  the index drawn is 0, a visited city, the wheel decides: the call makes a third draw,
  and returns city 2 when that draw is 1/4 and city 3 when it is 3/4.  When the index
  drawn is 2, the call returns city 2 after two draws.  The index is drawn below 3, so
  that city 3, which is unvisited, is never the index drawn.  And the probabilities need
  not add up to 1.  Take eight tasks of latency 1 and the first ant at step 0, with u
  not below \<^verbatim>\<open>randomFactor\<close>: each of the seven unvisited cities has the probability
  1/7 as \<^verbatim>\<open>float64\<close> rounds it, their cumulative sum is 1 - 2 ^ -52, and when the
  draw r is 1 - 2 ^ -53 no city reaches it.
\<close>

theorem exploration_picks_unvisited_counterexample:
  "(let rd = projr (prepared (rng_of [0, 0, 0, 0, 0, 0, 1 / 4])
                     [example_task 1 1 1, example_task 2 1 1, example_task 3 1 1,
                      example_task 4 1 1]);
        ant = projr (visitCity (ants rd ! 0) 0 1);
        rd1 = (put_ant rd 0 ant)\<lparr>currentIndex := 1\<rparr>
    in (visited ant, randomFactor rd1,
        map_sum id (\<lambda>(c, rd'). (c, pos (random rd'))) (selectNextCity rd1 ant))
       = ([True, True, False, False], Num (1 / 100), Inr (2, 7)))
   \<and> (let rd = projr (prepared (rng_of [0, 0, 0, 0, 0, 0, 3 / 4])
                     [example_task 1 1 1, example_task 2 1 1, example_task 3 1 1,
                      example_task 4 1 1]);
        ant = projr (visitCity (ants rd ! 0) 0 1);
        rd1 = (put_ant rd 0 ant)\<lparr>currentIndex := 1\<rparr>
    in (visited ant, randomFactor rd1,
        map_sum id (\<lambda>(c, rd'). (c, pos (random rd'))) (selectNextCity rd1 ant))
       = ([True, True, False, False], Num (1 / 100), Inr (3, 7)))
   \<and> (let rd = projr (prepared (rng_of [0, 0, 0, 0, 3 / 4, 0, 3 / 4])
                     [example_task 1 1 1, example_task 2 1 1, example_task 3 1 1,
                      example_task 4 1 1]);
        ant = projr (visitCity (ants rd ! 0) 0 1);
        rd1 = (put_ant rd 0 ant)\<lparr>currentIndex := 1\<rparr>
    in (visited ant, randomFactor rd1,
        map_sum id (\<lambda>(c, rd'). (c, pos (random rd'))) (selectNextCity rd1 ant))
       = ([True, True, False, False], Num (1 / 100), Inr (2, 6)))
   \<and> (let rd = projr (prepared (rng_of [0, 0, 0, 0, 0, 0, 0, 0, 0, 1 / 2,
                                         9007199254740991 / 9007199254740992])
                     [example_task 1 1 1, example_task 2 1 1, example_task 3 1 1,
                      example_task 4 1 1, example_task 5 1 1, example_task 6 1 1,
                      example_task 7 1 1, example_task 8 1 1])
    in (visited (ants rd ! 0), randomFactor rd,
        map_sum id (\<lambda>rd'. (probabilities rd' ! 1, cumulative (probabilities rd') 8))
          (calculateProbabilities rd (ants rd ! 0)),
        selectNextCity rd (ants rd ! 0))
       = ([True, False, False, False, False, False, False, False], Num (1 / 100),
          Inr (Num (2573485501354569 / 18014398509481984),
               Num (4503599627370495 / 4503599627370496)),
          Inl NoOtherCities))"
  by (simp add: run_defs ant_defs cumulative_def)

text \<open>The hypotheses hold in that engine, for that ant.\<close>

theorem next_city_selection_witness:
  "let rd = projr (prepared (rng_of [0, 0, 0, 0, 0, 0, 1 / 4])
                     [example_task 1 1 1, example_task 2 1 1, example_task 3 1 1,
                      example_task 4 1 1]);
       ant = projr (visitCity (ants rd ! 0) 0 1);
       rd1 = (put_ant rd 0 ant)\<lparr>currentIndex := 1\<rparr>
   in numberOfCities rd1 = int 4 \<and> square 4 (pheromones rd1) \<and> square 4 (distances rd1)
      \<and> length (visited ant) = 4 \<and> length (probabilities rd1) = 4
      \<and> 0 \<le> currentIndex rd1 \<and> currentIndex rd1 < int 4
      \<and> index (trail ant) (currentIndex rd1) = Inr (int 1) \<and> (1::nat) < 4
      \<and> normalized rd1 ant 1 = [Num 0, Num 0, Num (1 / 2), Num (1 / 2)]
      \<and> cumulative (normalized rd1 ant 1) 4 = Num 1
      \<and> wheel (normalized rd1 ant 1) (Num (1 / 4)) = Some 2
      \<and> map_sum id (\<lambda>(c, rd'). (c, probabilities rd', pos (random rd')))
           (selectNextCity rd1 ant)
         = Inr (2, [Num 0, Num 0, Num (1 / 2), Num (1 / 2)], 7)"
proof -
  define rd where "rd = projr (prepared (rng_of [0, 0, 0, 0, 0, 0, 1 / 4])
                     [example_task 1 1 1, example_task 2 1 1, example_task 3 1 1,
                      example_task 4 1 1])"
  define ant where "ant = projr (visitCity (ants rd ! 0) 0 1)"
  define rd1 where "rd1 = (put_ant rd 0 ant)\<lparr>currentIndex := 1\<rparr>"
  have ant: "visited ant = [True, True, False, False]" "trail ant = [0, 1, 0, 0]"
    "CPU (facetsValues ant) = Num 1"
    by (simp_all add: ant_def rd_def run_defs ant_defs)
  have rd1: "numberOfCities rd1 = 4" "currentIndex rd1 = 1"
    "pheromones rd1 = replicate 4 (replicate 4 (Num 1))"
    "distances rd1 = [[Num 0, Num 1, Num 1, Num 1], [Num 1, Num 0, Num 1, Num 1],
                      [Num 1, Num 1, Num 0, Num 1], [Num 1, Num 1, Num 1, Num 0]]"
    "length (probabilities rd1) = 4" "alpha rd1 = Num 1" "beta rd1 = Num 5"
    "randomFactor rd1 = Num (1 / 100)"
    "random rd1 = (rng_of [0, 0, 0, 0, 0, 0, 1 / 4])\<lparr>pos := 4\<rparr>"
    by (simp_all add: rd1_def rd_def run_defs ant_defs)
  have h1: "numberOfCities rd1 = int 4" by (simp add: rd1)
  have h2: "square 4 (pheromones rd1)" unfolding rd1 by (rule square_replicate)
  have h3: "square 4 (distances rd1)"
    by (simp add: rd1 square_def eval_nat_numeral All_less_Suc)
  have h4: "length (visited ant) = 4" by (simp add: ant)
  have h5: "length (probabilities rd1) = 4" by (simp add: rd1)
  have h6: "0 \<le> currentIndex rd1" "currentIndex rd1 < int 4" by (simp_all add: rd1)
  have h7: "index (trail ant) (currentIndex rd1) = Inr (int 1)"
    by (simp add: rd1 ant index_def)
  have h8: "(1::nat) < 4" by simp
  have norm: "normalized rd1 ant (Suc 0) = [Num 0, Num 0, Num (1 / 2), Num (1 / 2)]"
    by (simp add: normalized_def unvisited_sum_def score_def rd1 ant Pow_def
        replicate_numeral upt_conv_Cons round64_eval)
  have wh: "wheel (normalized rd1 ant (Suc 0)) (Num (1 / 4)) = Some 2"
    unfolding wheel_def norm by (simp add: cumulative_def fge_def upt_conv_Cons round64_eval)
  have cum: "cumulative (normalized rd1 ant (Suc 0)) 4 = Num 1"
    unfolding norm by (simp add: cumulative_def round64_eval)
  have t: "drawn_city (random rd1) (4 - currentIndex rd1) 0 = 0"
    by (simp add: rd1 drawn_city_def rng_of_def)
  have u: "tape (random rd1) (Suc (pos (random rd1))) = 0"
    "tape (random rd1) (Suc (Suc (pos (random rd1)))) = 1 / 4"
    by (simp_all add: rd1 rng_of_def)
  from next_city_selection[OF h1 h2 h3 h4 h5 h6 h7 h8, THEN conjunct1]
  have "selectNextCity rd1 ant =
     Inr (2, rd1\<lparr>probabilities := normalized rd1 ant (Suc 0),
                 random := (random rd1)\<lparr>pos := pos (random rd1) + 3\<rparr>\<rparr>)"
    by (simp add: Let_def t u wh ant)
  then have "map_sum id (\<lambda>(c, rd'). (c, probabilities rd', pos (random rd')))
           (selectNextCity rd1 ant)
         = Inr (2, [Num 0, Num 0, Num (1 / 2), Num (1 / 2)], 7)"
    by (simp add: norm rd1)
  with h1 h2 h3 h4 h5 h6 h7 h8 norm wh cum show ?thesis
    unfolding Let_def rd_def[symmetric] ant_def[symmetric] rd1_def[symmetric] by simp
qed

section \<open>The population of ants\<close>










section \<open>Trails without repetition\<close>

lemma rounded_round64: "rounded (round64 x)"
  by (cases "round64 x") (simp_all add: rounded_def round64_representable)

lemma rounded_zero: "rounded (Num 0)"
  using rounded_round64[of 0] by simp

lemma rounded_fadd: "rounded (fadd x y)"
  by (cases x; cases y) (simp_all add: rounded_round64, simp_all add: rounded_def)

lemma rounded_cumulative: "rounded (cumulative ps k)"
proof -
  have "rounded (foldl fadd (Num 0) xs)" for xs
    by (induction xs rule: rev_induct) (simp_all add: rounded_zero rounded_fadd)
  then show ?thesis by (simp add: cumulative_def)
qed

lemma fadd_zero: "rounded x \<Longrightarrow> fadd x (Num 0) = x"
  by (cases x) (simp_all add: rounded_def round64_exact)

lemma fge_fadd_zero: "rounded x \<Longrightarrow> fge (fadd x (Num 0)) r \<Longrightarrow> fge x r"
  by (simp add: fadd_zero)

lemma wheel_skips_zero:
  assumes "wheel ps (Num u) = Some c" and "0 < u"
  shows "c < length ps" and "ps ! c \<noteq> Num 0"
proof -
  from assms(1) obtain i where i: "i < length [0 ..< length ps]"
    and P: "fge (cumulative ps (Suc ([0 ..< length ps] ! i))) (Num u)"
    and c: "c = [0 ..< length ps] ! i"
    and first: "\<forall>j<i. \<not> fge (cumulative ps (Suc ([0 ..< length ps] ! j))) (Num u)"
    unfolding wheel_def find_Some_iff by blast
  from i c have cl: "c < length ps" and ci: "c = i" by simp_all
  show "c < length ps" by (rule cl)
  show "ps ! c \<noteq> Num 0"
  proof
    assume z: "ps ! c = Num 0"
    from P have "fge (fadd (cumulative ps c) (Num 0)) (Num u)"
      using cl by (simp add: ci[symmetric] cumulative_Suc z)
    then have before: "fge (cumulative ps c) (Num u)"
      by (rule fge_fadd_zero[OF rounded_cumulative])
    show False
    proof (cases c)
      case 0
      with before assms(2) show False by (simp add: cumulative_def fge_def)
    next
      case (Suc j)
      then have "j < i" using ci by simp
      with first i have "\<not> fge (cumulative ps (Suc j)) (Num u)" by simp
      with before Suc show False by simp
    qed
  qed
qed

lemma select_unvisited:
  assumes s: "sound n rd" and len: "length (visited ant) = n"
    and ci: "0 \<le> currentIndex rd" "currentIndex rd < int n"
    and cur: "index (trail ant) (currentIndex rd) = Inr (int i)" "i < n"
    and sel: "selectNextCity rd ant = Inr (c, rd')"
    and nz: "frac (tape (random rd) (pos (random rd) + 2)) \<noteq> 0"
  shows "0 \<le> c \<and> c < int n \<and> \<not> visited ant ! nat c"
    and "sound n rd'"
    and "tape (random rd') = tape (random rd)"
proof -
  from s have n: "numberOfCities rd = int n" and sq: "square n (pheromones rd)" "square n (distances rd)"
    and lp: "length (probabilities rd) = n"
    by (simp_all add: sound_def)
  note eq = selectNextCity_eq[OF n sq len lp ci cur]
  define t where "t = drawn_city (random rd) (int n - currentIndex rd) 0"
  define r where "r = frac (tape (random rd) (pos (random rd) + 2))"
  have r: "0 < r" using nz frac_ge_0[of "tape (random rd) (pos (random rd) + 2)"]
    by (simp add: r_def less_le)
  from eq(2,3) ci have t: "0 \<le> t" "t < int n" by (simp_all add: t_def)
  show "0 \<le> c \<and> c < int n \<and> \<not> visited ant ! nat c"
    and "sound n rd'"
    and "tape (random rd') = tape (random rd)"
  proof (atomize (full), cases "flt (Num (frac (tape (random rd) (pos (random rd) + 1)))) (randomFactor rd)
      \<and> \<not> visited ant ! nat t")
    case True
    with sel eq(1) have "c = t" "rd' = rd\<lparr>random := (random rd)\<lparr>pos := pos (random rd) + 2\<rparr>\<rparr>"
      by (simp_all add: Let_def t_def)
    with True t s show "(0 \<le> c \<and> c < int n \<and> \<not> visited ant ! nat c) \<and> sound n rd' \<and>
        tape (random rd') = tape (random rd)"
      by (simp add: sound_def)
  next
    case False
    with sel eq(1) obtain k where w: "wheel (normalized rd ant i) (Num r) = Some k"
      and c: "c = int k"
      and rd': "rd' = rd\<lparr>probabilities := normalized rd ant i,
                          random := (random rd)\<lparr>pos := pos (random rd) + 3\<rparr>\<rparr>"
      by (auto simp: Let_def t_def r_def split: option.splits)
    from wheel_skips_zero[OF w r] have k: "k < n" and nzp: "normalized rd ant i ! k \<noteq> Num 0"
      by (simp_all add: n)
    from nzp k have "\<not> visited ant ! k" by (auto simp: normalized_def n)
    with k c s show "(0 \<le> c \<and> c < int n \<and> \<not> visited ant ! nat c) \<and> sound n rd' \<and>
        tape (random rd') = tape (random rd)"
      by (simp add: rd' sound_def n)
  qed
qed

lemma placed_visit:
  assumes p: "placed n (Suc k) ant" and k: "Suc k < n"
    and c: "0 \<le> c" "c < int n" "\<not> visited ant ! nat c"
    and v: "visitCity ant (int k) c = Inr ant'"
  shows "placed n (Suc (Suc k)) ant'"
proof -
  from visitCity_Inr(1)[OF v] have ant': "trail ant' = (trail ant)[Suc k := c]"
    "visited ant' = (visited ant)[nat c := True]"
    by (simp_all add: nat_add_distrib)
  from p have lt: "length (trail ant) = n" and lv: "length (visited ant) = n"
    and d: "distinct (take (Suc k) (trail ant))"
    and vis: "\<forall>c<n. visited ant ! c \<longleftrightarrow> int c \<in> set (take (Suc k) (trail ant))"
    and rng: "\<forall>x\<in>set (take (Suc k) (trail ant)). 0 \<le> x \<and> x < int n"
    by (simp_all add: placed_def)
  have tk: "take (Suc (Suc k)) ((trail ant)[Suc k := c]) = take (Suc k) (trail ant) @ [c]"
    using k lt by (simp add: take_Suc_conv_app_nth[of "Suc k"])
  from c vis have notin: "c \<notin> set (take (Suc k) (trail ant))"
    by (metis int_nat_eq nat_less_iff)
  have "\<forall>d<n. ((visited ant)[nat c := True]) ! d \<longleftrightarrow>
      int d \<in> set (take (Suc k) (trail ant) @ [c])"
  proof (intro allI impI)
    fix d assume d: "d < n"
    show "((visited ant)[nat c := True]) ! d \<longleftrightarrow> int d \<in> set (take (Suc k) (trail ant) @ [c])"
      using d c lv vis by (cases "d = nat c") (auto simp: nth_list_update)
  qed
  then show ?thesis
    unfolding placed_def ant' tk using lt lv k d notin rng c by auto
qed

lemma placed_current:
  assumes "placed n (Suc k) ant"
  shows "length (visited ant) = n"
    and "index (trail ant) (int k) = Inr (int (nat (trail ant ! k)))" and "nat (trail ant ! k) < n"
proof -
  from assms have lt: "length (trail ant) = n" and k: "Suc k \<le> n"
    and rng: "\<forall>x\<in>set (take (Suc k) (trail ant)). 0 \<le> x \<and> x < int n"
    and lv: "length (visited ant) = n"
    by (simp_all add: placed_def)
  have "trail ant ! k \<in> set (take (Suc k) (trail ant))"
    using k lt by (simp add: take_Suc_conv_app_nth)
  with rng have r: "0 \<le> trail ant ! k" "trail ant ! k < int n" by auto
  show "length (visited ant) = n" by (rule lv)
  show "index (trail ant) (int k) = Inr (int (nat (trail ant ! k)))"
    using k lt r by simp
  show "nat (trail ant ! k) < n" using r by simp
qed

lemma construction_step:
  assumes s: "sound n rd1" and ci: "currentIndex rd1 = int k" and k: "Suc k < n"
    and nz: "\<forall>j. frac (tape (random rd1) j) \<noteq> 0"
    and pl: "\<forall>m<length (ants rd1). placed n (Suc k) (ants rd1 ! m)"
    and loop: "foldR (\<lambda>k rd.
              bindR (selectNextCity rd (ants rd ! k)) (\<lambda>(city, rd').
              bindR (visitCity (ants rd' ! k) (currentIndex rd') city) (\<lambda>ant'.
              Inr (put_ant rd' k ant'))))
            [0 ..< length (ants rd1)] rd1 = Inr rd2"
  shows "sound n rd2" and "currentIndex rd2 = int k"
    and "tape (random rd2) = tape (random rd1)"
    and "length (ants rd2) = length (ants rd1)"
    and "\<forall>m<length (ants rd1). placed n (Suc (Suc k)) (ants rd2 ! m)"
proof -
  define a where "a = length (ants rd1)"
  let ?J = "\<lambda>j s. sound n s \<and> currentIndex s = int k \<and> tape (random s) = tape (random rd1)
      \<and> length (ants s) = a
      \<and> (\<forall>m<a. placed n (if m < j then Suc (Suc k) else Suc k) (ants s ! m))"
  have "?J (length [0 ..< length (ants rd1)]) rd2"
  proof (rule foldR_post[OF loop, where I = ?J])
    show "?J 0 rd1" using s ci pl by (simp add: a_def)
  next
    fix j s s'
    assume j: "j < length [0 ..< length (ants rd1)]" and J: "?J j s"
      and step: "bindR (selectNextCity s (ants s ! ([0 ..< length (ants rd1)] ! j)))
                  (\<lambda>(city, rd').
              bindR (visitCity (ants rd' ! ([0 ..< length (ants rd1)] ! j)) (currentIndex rd') city)
                  (\<lambda>ant'.
              Inr (put_ant rd' ([0 ..< length (ants rd1)] ! j) ant'))) = Inr s'"
    from j have ja: "j < a" and nj: "[0 ..< length (ants rd1)] ! j = j" by (simp_all add: a_def)
    from step obtain c sa ant' where sel: "selectNextCity s (ants s ! j) = Inr (c, sa)"
      and vis: "visitCity (ants sa ! j) (currentIndex sa) c = Inr ant'"
      and s': "s' = put_ant sa j ant'"
      unfolding nj by (auto simp: bindR_eq_Inr)
    from J have "\<forall>m<a. placed n (if m < j then Suc (Suc k) else Suc k) (ants s ! m)"
      by blast
    from this[rule_format, of j] ja have pj: "placed n (Suc k) (ants s ! j)" by simp
    note cur = placed_current[OF pj]
    from J have ss: "sound n s" and cs: "currentIndex s = int k"
      and ts: "tape (random s) = tape (random rd1)" and la: "length (ants s) = a"
      by blast+
    have nzs: "frac (tape (random s) (pos (random s) + 2)) \<noteq> 0" using nz ts by simp
    have range: "0 \<le> currentIndex s" "currentIndex s < int n" using cs k by simp_all
    note su = select_unvisited[OF ss cur(1) range cur(2)[folded cs] cur(3) sel nzs]
    note fr = selectNextCity_frame[OF sel]
    have vis': "visitCity (ants s ! j) (int k) c = Inr ant'"
      using vis fr cs by simp
    from su(1) have "placed n (Suc (Suc k)) ant'"
      by (intro placed_visit[OF pj k _ _ _ vis']) simp_all
    moreover have "sound n s'" using su(2) by (simp add: s' put_ant_def sound_def)
    moreover have "\<forall>m<a. m \<noteq> j \<longrightarrow> ants s' ! m = ants s ! m"
      by (simp add: s' put_ant_def fr)
    moreover have "ants s' ! j = ant'" using ja la by (simp add: s' put_ant_def fr)
    ultimately show "?J (Suc j) s'"
      using J su(3) fr by (auto simp: s' put_ant_def less_Suc_eq)
  qed
  then show "sound n rd2" and "currentIndex rd2 = int k"
    and "tape (random rd2) = tape (random rd1)"
    and "length (ants rd2) = length (ants rd1)"
    and "\<forall>m<length (ants rd1). placed n (Suc (Suc k)) (ants rd2 ! m)"
    by (simp_all add: a_def)
qed

lemma moveAnts_placed:
  assumes s: "sound n rd" and ci: "currentIndex rd = int k0" and k0: "Suc k0 \<le> n"
    and nz: "\<forall>j. frac (tape (random rd) j) \<noteq> 0"
    and pl: "\<forall>m<length (ants rd). placed n (Suc k0) (ants rd ! m)"
    and mv: "moveAnts rd = Inr rd'"
  shows "length (ants rd') = length (ants rd)"
    and "\<forall>m<length (ants rd). placed n n (ants rd' ! m)"
proof -
  let ?xs = "[int k0 .. int n - 2]"
  have lx: "length ?xs = n - Suc k0" using k0 by simp
  let ?I = "\<lambda>j st. sound n st \<and> currentIndex st = int (k0 + j)
      \<and> tape (random st) = tape (random rd) \<and> length (ants st) = length (ants rd)
      \<and> (\<forall>m<length (ants rd). placed n (Suc (k0 + j)) (ants st ! m))"
  from s have n: "numberOfCities rd = int n" by (simp add: sound_def)
  have "?I (length ?xs) rd'"
  proof (rule foldR_post[OF mv[unfolded moveAnts_def ci n], where I = ?I])
    show "?I 0 rd" using s ci pl by simp
  next
    fix j st st'
    assume j: "j < length ?xs" and I: "?I j st"
      and step: "bindR (foldR (\<lambda>k rd.
                    bindR (selectNextCity rd (ants rd ! k)) (\<lambda>(city, rd').
                    bindR (visitCity (ants rd' ! k) (currentIndex rd') city) (\<lambda>ant'.
                    Inr (put_ant rd' k ant'))))
                  [0 ..< length (ants st)] st) (\<lambda>rd2.
         Inr (rd2\<lparr>currentIndex := currentIndex rd2 + 1\<rparr>)) = Inr st'"
    from step obtain st2 where inner: "foldR (\<lambda>k rd.
                    bindR (selectNextCity rd (ants rd ! k)) (\<lambda>(city, rd').
                    bindR (visitCity (ants rd' ! k) (currentIndex rd') city) (\<lambda>ant'.
                    Inr (put_ant rd' k ant'))))
                  [0 ..< length (ants st)] st = Inr st2"
      and st': "st' = st2\<lparr>currentIndex := currentIndex st2 + 1\<rparr>"
      by (auto simp: bindR_eq_Inr)
    from j lx have kk: "Suc (k0 + j) < n" by simp
    from I have a: "sound n st" and b: "currentIndex st = int (k0 + j)"
      and c: "tape (random st) = tape (random rd)" and d: "length (ants st) = length (ants rd)"
      and e: "\<forall>m<length (ants rd). placed n (Suc (k0 + j)) (ants st ! m)"
      by blast+
    have nz': "\<forall>j. frac (tape (random st) j) \<noteq> 0" using nz c by simp
    have e': "\<forall>m<length (ants st). placed n (Suc (k0 + j)) (ants st ! m)" using e d by simp
    note cs = construction_step[OF a b kk nz' e' inner]
    show "?I (Suc j) st'"
      using cs c d by (simp add: st' sound_def)
  qed
  then have "?I (n - Suc k0) rd'" unfolding lx .
  then have fin: "length (ants rd') = length (ants rd)"
    "\<forall>m<length (ants rd). placed n (Suc (k0 + (n - Suc k0))) (ants rd' ! m)"
    by blast+
  show "length (ants rd') = length (ants rd)" by (rule fin)
  have "Suc (k0 + (n - Suc k0)) = n" using k0 by simp
  with fin(2) show "\<forall>m<length (ants rd). placed n n (ants rd' ! m)" by simp
qed

lemma placed_all:
  assumes "placed n n ant"
  shows "distinct (trail ant) \<and> set (trail ant) = {0 ..< int n}"
proof -
  from assms have l: "length (trail ant) = n" by (simp add: placed_def)
  then have tk: "take n (trail ant) = trail ant" by simp
  from assms have d: "distinct (trail ant)"
    and r: "\<forall>x\<in>set (trail ant). 0 \<le> x \<and> x < int n"
    unfolding placed_def tk by blast+
  have sub: "set (trail ant) \<subseteq> {0 ..< int n}" using r by auto
  have "card (set (trail ant)) = n" using d l by (simp add: distinct_card)
  then have "card (set (trail ant)) = card {0 ..< int n}" by simp
  with sub have "set (trail ant) = {0 ..< int n}"
    by (intro card_subset_eq) simp_all
  with d show ?thesis by simp
qed

lemma prepared_placed:
  assumes "prepared seed ts = Inr rd"
  shows "sound (nat (numberOfCities rd)) rd" and "currentIndex rd = 0"
    and "tape (random rd) = tape seed"
    and "\<forall>m<length (ants rd). placed (nat (numberOfCities rd)) (Suc 0) (ants rd ! m)"
proof -
  define n where "n = length (remdups (map TaskID ts))"
  from assms obtain rd0 rd1 where 0: "NewRouteDiscovery seed ts = Inr rd0"
    and 1: "setupAnts rd0 = Inr rd1" and 2: "clearTrails rd1 = Inr rd"
    by (auto simp: prepared_def bindR_eq_Inr)
  from 0 have rd0: "numberOfCities rd0 = int n" "numberOfAnts rd0 = int n" "random rd0 = seed"
    "square n (distances rd0)" "square n (pheromones rd0)" "length (probabilities rd0) = n"
    unfolding NewRouteDiscovery_eq[OF n_def] by (auto simp: square_def)
  note su = setupAnts_Inr[OF 1]
  have "numberOfCities (outside_setup rd1) = numberOfCities (outside_setup rd0)"
    "distances (outside_setup rd1) = distances (outside_setup rd0)"
    "pheromones (outside_setup rd1) = pheromones (outside_setup rd0)"
    by (simp_all only: su(1))
  moreover have "probabilities (outside_setup rd1) = probabilities (outside_setup rd0)"
    by (simp only: su(1))
  ultimately have rd1: "numberOfCities rd1 = int n" "square n (distances rd1)"
    "square n (pheromones rd1)" "length (probabilities rd1) = n"
    using rd0 by (simp_all add: outside_setup_def)
  from clearTrails_eq[OF rd1(3) rd1(1)] 2
  have rd: "rd = rd1\<lparr>pheromones := replicate n (replicate n (initialPheromone rd1))\<rparr>" by simp
  have nn: "nat (numberOfCities rd) = n" by (simp add: rd rd1)
  show "sound (nat (numberOfCities rd)) rd"
    unfolding nn by (simp add: sound_def rd rd1)
  show "currentIndex rd = 0" by (simp add: rd su(3))
  show "tape (random rd) = tape seed" by (simp add: rd su(4) rd0)
  show "\<forall>m<length (ants rd). placed (nat (numberOfCities rd)) (Suc 0) (ants rd ! m)"
    unfolding nn
  proof (intro allI impI)
    fix m assume "m < length (ants rd)"
    then have m: "m < nat (numberOfAnts rd0)" by (simp add: rd su(2))
    define c where "c = drawn_city (random rd0) (numberOfCities rd0) m"
    from su(5) m have c: "0 \<le> c" "c < int n"
      and ant: "ants rd1 ! m = (newAnt (int n) (Facets (tasks rd0 ! m)))
               \<lparr>trail := (replicate n 0)[0 := c], visited := (replicate n False)[nat c := True]\<rparr>"
      by (simp_all add: c_def rd0)
    from c have n0: "0 < n" by simp
    have tk: "take (Suc 0) ((replicate n (0::int))[0 := c]) = [c]"
      using n0 by (cases n) simp_all
    have "\<forall>d<n. (replicate n False)[nat c := True] ! d \<longleftrightarrow> int d \<in> set [c]"
      using c by (auto simp: nth_list_update)
    then show "placed n (Suc 0) (ants rd ! m)"
      using c n0 by (simp add: placed_def rd ant tk)
  qed
qed

text \<open>
  When no variate of the random source is exactly 0, the trail of every ant, once
  \<^verbatim>\<open>moveAnts\<close> has completed it, is a permutation of the city indices.
\<close>

lemma completed_trails_are_permutations:
  assumes "prepared seed ts = Inr rd" and "moveAnts rd = Inr rd'"
    and "\<forall>j. frac (tape seed j) \<noteq> 0"
  shows "\<forall>ant\<in>set (ants rd').
           distinct (trail ant) \<and> set (trail ant) = {0 ..< numberOfCities rd'}"
proof
  fix ant assume "ant \<in> set (ants rd')"
  then obtain m where m: "m < length (ants rd')" and ant: "ant = ants rd' ! m"
    by (auto simp: in_set_conv_nth)
  define n where "n = nat (numberOfCities rd)"
  note p = prepared_placed[OF assms(1), folded n_def]
  from p(1) have nc: "numberOfCities rd = int n" by (simp add: sound_def)
  have "numberOfCities (outside_construction rd') = numberOfCities (outside_construction rd)"
    by (simp only: moveAnts_frame(1)[OF assms(2)])
  then have nc': "numberOfCities rd' = int n" using nc by simp
  from m moveAnts_frame(2)[OF assms(2)] have ml: "m < length (ants rd)" by simp
  with p(4) have "placed n (Suc 0) (ants rd ! m)" by simp
  then have n1: "Suc 0 \<le> n" by (simp add: placed_def)
  have nz: "\<forall>j. frac (tape (random rd) j) \<noteq> 0" using assms(3) p(3) by simp
  have ci: "currentIndex rd = int 0" using p(2) by simp
  from moveAnts_placed(2)[OF p(1) ci n1 nz p(4) assms(2)] ml
  have "placed n n (ants rd' ! m)" by simp
  from placed_all[OF this] show "distinct (trail ant) \<and> set (trail ant) = {0 ..< numberOfCities rd'}"
    by (simp add: ant nc')
qed

end
